theory Spec2Isabelle
  imports Complex_Main
begin

section \<open>The polyline decoder\<close>

text \<open>
  A JavaScript string is a sequence of UTF-16 code units.  \<open>charCodeAt\<close> gives the code
  unit at an index, and \<open>NaN\<close> (here \<open>None\<close>) at an index outside the string; it never
  raises.
\<close>

type_synonym js_string = "nat list"

definition str :: "string \<Rightarrow> js_string" where
  "str s = map of_char s"

definition charCodeAt :: "js_string \<Rightarrow> nat \<Rightarrow> int option" where
  "charCodeAt encoded i = (if i < length encoded then Some (int (encoded ! i)) else None)"

text \<open>
  \<open>ToInt32\<close> of a JavaScript number: \<open>NaN\<close> becomes 0, an integer is wrapped into the
  signed 32-bit range.  The bitwise operators work on such values.
\<close>

fun toInt32 :: "int option \<Rightarrow> int" where
  "toInt32 None = 0"
| "toInt32 (Some v) = signed_take_bit 31 v"

text \<open>\<open>x << shift\<close>: the shift count is taken modulo 32 and the result wraps to 32 bits.\<close>

definition js_shl :: "int \<Rightarrow> nat \<Rightarrow> int" where
  "js_shl x shift = signed_take_bit 31 (push_bit (shift mod 32) x)"

text \<open>\<open>b >= 0x20\<close>: a comparison with \<open>NaN\<close> is false.\<close>

fun js_ge :: "int option \<Rightarrow> int \<Rightarrow> bool" where
  "js_ge None k = False"
| "js_ge (Some v) k = (k \<le> v)"

text \<open>
  The inner \<open>do ... while (b >= 0x20)\<close> loop, which the source writes out twice (once for
  the latitude, once for the longitude).  It returns the assembled \<open>result\<close> and the
  \<open>index\<close> after the last \<open>index++\<close>.
\<close>

function readGroup :: "js_string \<Rightarrow> nat \<Rightarrow> nat \<Rightarrow> int \<Rightarrow> int \<times> nat" where
  "readGroup encoded index shift result =
     (let b = map_option (\<lambda>c. c - 63) (charCodeAt encoded index);
          index' = index + 1;
          result' = or result (js_shl (and (toInt32 b) 31) shift);
          shift' = shift + 5
      in if js_ge b 32 then readGroup encoded index' shift' result'
         else (result', index'))"
  by pat_completeness auto
termination
  by (relation "measure (\<lambda>(encoded, index, shift, result). length encoded - index)")
     (auto simp: charCodeAt_def split: if_splits)

declare readGroup.simps [simp del]

text \<open>\<open>(result & 1) ? ~(result >> 1) : (result >> 1)\<close>\<close>

definition delta :: "int \<Rightarrow> int" where
  "delta result = (if and result 1 \<noteq> 0 then not (drop_bit 1 result) else drop_bit 1 result)"

lemma readGroup_index: "index < snd (readGroup encoded index shift result)"
proof (induction encoded index shift result rule: readGroup.induct)
  case (1 encoded index shift result)
  show ?case
  proof (cases "js_ge (map_option (\<lambda>c. c - 63) (charCodeAt encoded index)) 32")
    case True
    from "1.IH"[OF refl refl refl refl True] True show ?thesis
      by (subst readGroup.simps) (simp add: Let_def)
  next
    case False
    then show ?thesis
      by (subst readGroup.simps) (simp add: Let_def)
  qed
qed

text \<open>
  The outer \<open>while (index < len)\<close> loop.  \<open>lat\<close> and \<open>lng\<close> are JavaScript numbers holding
  integers (sums of 32-bit deltas, exact in a double below \<open>2 ^ 53\<close>), modelled as
  \<open>int\<close>; the pushed components \<open>lat / 1e5\<close> and \<open>lng / 1e5\<close> are modelled as exact
  quotients.  The loop returns the path and the final \<open>index\<close>.
\<close>

function decodeLoop ::
  "js_string \<Rightarrow> nat \<Rightarrow> int \<Rightarrow> int \<Rightarrow> (real \<times> real) list \<Rightarrow> (real \<times> real) list \<times> nat" where
  "decodeLoop encoded index lat lng path =
     (if index < length encoded then
        (case readGroup encoded index 0 0 of (result, index1) \<Rightarrow>
          (let lat' = lat + delta result in
            (case readGroup encoded index1 0 0 of (result2, index2) \<Rightarrow>
              (let lng' = lng + delta result2 in
                decodeLoop encoded index2 lat' lng'
                  (path @ [(real_of_int lat' / 100000, real_of_int lng' / 100000)])))))
      else (path, index))"
  by pat_completeness auto
termination
proof (relation "measure (\<lambda>(encoded, index, lat, lng, path). length encoded - index)", goal_cases)
  case 1
  show ?case by simp
next
  case (2 encoded index lat lng path x1 x2 x y1 y2)
  have "index < snd (readGroup encoded index 0 0)"
    by (rule readGroup_index)
  moreover have "snd (readGroup encoded index 0 0) < snd (readGroup encoded (snd (readGroup encoded index 0 0)) 0 0)"
    by (rule readGroup_index)
  ultimately show ?case using 2 by (metis (no_types, lifting) case_prod_conv diff_less_mono2 in_measure less_trans snd_conv)
qed

declare decodeLoop.simps [simp del]

definition decodePolyline :: "js_string \<Rightarrow> (real \<times> real) list" where
  "decodePolyline encoded = fst (decodeLoop encoded 0 0 0 [])"

text \<open>The value of \<open>index\<close> when \<open>decodePolyline\<close> returns.\<close>

definition finalIndex :: "js_string \<Rightarrow> nat" where
  "finalIndex encoded = snd (decodeLoop encoded 0 0 0 [])"

text \<open>
  A string ends in the middle of a group when its last character still asks for a
  further one: the loop test \<open>b >= 0x20\<close> holds of it.
\<close>

definition endsMidGroup :: "js_string \<Rightarrow> bool" where
  "endsMidGroup encoded = (encoded \<noteq> [] \<and> js_ge (Some (int (last encoded) - 63)) 32)"

text \<open>The standard fixture of the encoding.\<close>

definition fixture :: js_string where
  "fixture = str ''_p~iF~ps|U_ulLnnqC_mqNvxq`@''"

section \<open>A reference encoder\<close>

text \<open>
  Modelled from the spec: the reference encoder of the round-trip property is not part of
  the repository.  It is the scheme the specification names: each coordinate is scaled by
  \<open>1e5\<close> and rounded, the difference to the previous point is taken (the first point
  against \<open>(0, 0)\<close>), the signed difference is zig-zag encoded (shifted left by one, and
  complemented when negative), and the result is written in groups of five bits, lowest
  first, each with the continuation bit \<open>0x20\<close> except the last, offset by 63.
\<close>

function encodeValue :: "nat \<Rightarrow> js_string" where
  "encodeValue v = (if 32 \<le> v then (v mod 32 + 32 + 63) # encodeValue (v div 32) else [v + 63])"
  by pat_completeness auto
termination
  by (relation "measure id") auto

declare encodeValue.simps [simp del]

definition encodeSigned :: "int \<Rightarrow> js_string" where
  "encodeSigned d = encodeValue (nat (if d < 0 then not (push_bit 1 d) else push_bit 1 d))"

fun encodeFrom :: "int \<Rightarrow> int \<Rightarrow> (int \<times> int) list \<Rightarrow> js_string" where
  "encodeFrom plat plng [] = []"
| "encodeFrom plat plng ((lat, lng) # ps) =
     encodeSigned (lat - plat) @ encodeSigned (lng - plng) @ encodeFrom lat lng ps"

definition toE5 :: "real \<times> real \<Rightarrow> int \<times> int" where
  "toE5 p = (round (fst p * 100000), round (snd p * 100000))"

definition encodePolyline :: "(real \<times> real) list \<Rightarrow> js_string" where
  "encodePolyline ps = encodeFrom 0 0 (map toE5 ps)"

text \<open>The point that \<open>decodePolyline\<close> pushes for the accumulators \<open>(lat, lng)\<close>.\<close>

definition fromE5 :: "int \<times> int \<Rightarrow> real \<times> real" where
  "fromE5 p = (real_of_int (fst p) / 100000, real_of_int (snd p) / 100000)"

text \<open>A coordinate as the specification has it: a latitude and a longitude in range.\<close>

definition validCoordinate :: "real \<times> real \<Rightarrow> bool" where
  "validCoordinate p = (- 90 \<le> fst p \<and> fst p \<le> 90 \<and> - 180 \<le> snd p \<and> snd p \<le> 180)"

section \<open>The selection state machine of \<open>index.tsx\<close>\<close>

text \<open>
  The component \<open>App\<close> keeps its state in React state variables and one ref.  A state
  setter writes the current state; a handler or an effect reads the variables of the
  render that created it.  Where the two can differ (\<open>handleReset\<close> called from the
  continuation of \<open>fetchRoute\<close>) the values read are passed as a \<open>render\<close> record.

  Calls into the map library (\<open>L.marker\<close>, \<open>L.polyline\<close>, \<open>addTo\<close>, \<open>removeLayer\<close>,
  \<open>fitBounds\<close>, \<open>setView\<close>) change the map's own overlays and view, not the state of the
  component, and are left out.  They return normally, with one exception:
  \<open>mapInstance.fitBounds(polyline.getBounds().pad(0.2))\<close>, the last statement of the \<open>try\<close>
  block of \<open>fetchRoute\<close>, raises when the polyline has no points (its bounds are not
  valid, and \<open>pad\<close> reads their corners); the \<open>catch\<close> block then runs after the path and
  the ETA have been set.
\<close>

datatype SelectionState =
  SELECTING_START | SELECTING_END | PATH_CONFIRMED | SEARCHING_FOR_MATCH | MATCH_FOUND

type_synonym latlng = "real \<times> real"

datatype marker_type = StartMarker | EndMarker

type_synonym marker = "latlng \<times> marker_type"

text \<open>\<open>createMarker(latlng, type)\<close>: the marker object, known by its position and type.\<close>

definition createMarker :: "latlng \<Rightarrow> marker_type \<Rightarrow> marker" where
  "createMarker e t = (e, t)"

text \<open>
  The text stored by \<open>setEta\<close> says "about \<open>n\<close> minutes of walking" in Persian; it is
  kept as the number \<open>n\<close>.  The text passed to \<open>alert\<close> says that routing failed and asks
  for other points.
\<close>

datatype eta_text = AboutMinutesWalking int

datatype alert_text = RoutingFailed

record render =
  r_mapInstance :: bool
  r_markers :: "marker list"
  r_path :: "latlng list option"

text \<open>
  The state variables of \<open>App\<close> (\<open>mapInstance\<close> is kept as "the map exists"), the ref
  \<open>matchIntervalRef\<close>, and what the component has handed to the browser: the interval
  timers that are active (\<open>window.setInterval\<close> returns a fresh positive handle,
  \<open>nextTimer\<close>), the route fetches that have not settled yet, each with the render that
  issued it, and the alerts shown so far.
\<close>

record world =
  mapInstance :: bool
  markers :: "marker list"
  path :: "latlng list option"
  eta :: "eta_text option"
  isLoading :: bool
  matchedUsersCount :: nat
  matchIntervalRef :: "nat option"
  selectionState :: SelectionState
  timers :: "nat list"
  nextTimer :: nat
  inflight :: "render list"
  alerts :: "alert_text list"

definition init :: world where
  "init = \<lparr> mapInstance = False, markers = [], path = None, eta = None, isLoading = False,
            matchedUsersCount = 0, matchIntervalRef = None, selectionState = SELECTING_START,
            timers = [], nextTimer = 1, inflight = [], alerts = [] \<rparr>"

definition render_of :: "world \<Rightarrow> render" where
  "render_of w = \<lparr> r_mapInstance = mapInstance w, r_markers = markers w, r_path = path w \<rparr>"

text \<open>
  \<open>if (matchIntervalRef.current) { clearInterval(matchIntervalRef.current);
  matchIntervalRef.current = null; }\<close>, which the source has in \<open>handleReset\<close>, in the
  interval callback and in the cleanup of the match effect.
\<close>

definition clearMatchInterval :: "world \<Rightarrow> world" where
  "clearMatchInterval w =
     (case matchIntervalRef w of
        None \<Rightarrow> w
      | Some i \<Rightarrow> w\<lparr> timers := removeAll i (timers w), matchIntervalRef := None \<rparr>)"

text \<open>
  The click effect registers \<open>handleMapClick\<close> on the map unless it returns early; it runs
  again whenever \<open>mapInstance\<close>, \<open>selectionState\<close> or \<open>isLoading\<close> changes, so the handler
  always reads the current \<open>selectionState\<close>.
\<close>

definition clickRegistered :: "world \<Rightarrow> bool" where
  "clickRegistered w =
     (\<not> (\<not> mapInstance w \<or> isLoading w \<or> selectionState w = SEARCHING_FOR_MATCH
          \<or> selectionState w = MATCH_FOUND))"

definition handleMapClick :: "latlng \<Rightarrow> world \<Rightarrow> world" where
  "handleMapClick e w =
     (if selectionState w = SELECTING_START \<or> selectionState w = SELECTING_END then
        (if selectionState w = SELECTING_START then
           w\<lparr> markers := [createMarker e StartMarker], selectionState := SELECTING_END \<rparr>
         else if selectionState w = SELECTING_END then
           w\<lparr> markers := markers w @ [createMarker e EndMarker],
               selectionState := PATH_CONFIRMED \<rparr>
         else w)
      else w)"

text \<open>\<open>handleReset\<close>, reading \<open>mapInstance\<close> and \<open>path\<close> from the render \<open>r\<close> it belongs to.\<close>

definition handleReset :: "render \<Rightarrow> world \<Rightarrow> world" where
  "handleReset r w =
     (if \<not> r_mapInstance r then w
      else
        (let w1 = clearMatchInterval w;
             w2 = w1\<lparr> markers := [] \<rparr>;
             w3 = (if r_path r \<noteq> None then w2\<lparr> path := None \<rparr> else w2)
         in w3\<lparr> eta := None, matchedUsersCount := 0, selectionState := SELECTING_START,
                isLoading := False \<rparr>))"

definition handleConfirm :: "world \<Rightarrow> world" where
  "handleConfirm w = w\<lparr> selectionState := SEARCHING_FOR_MATCH \<rparr>"

text \<open>
  What a route fetch can settle with: \<open>fetch\<close> rejects; the response is not \<open>ok\<close>;
  \<open>response.json()\<close> rejects; or a JSON body arrives, of which the code reads \<open>paths\<close>
  (absent: \<open>None\<close>), and of the first path \<open>points.coordinates\<close> (pairs \<open>[lng, lat]\<close>;
  \<open>None\<close> when \<open>points\<close> or \<open>coordinates\<close> is absent, so that reading it raises a
  \<open>TypeError\<close>) and \<open>time\<close> (milliseconds).
\<close>

record route =
  coordinates :: "(real \<times> real) list option"
  time :: int

datatype response =
  FetchRejected
| NotOk nat
| JsonRejected
| Body "route list option"

text \<open>\<open>Math.round(route.time / 60000)\<close>; \<open>Math.round\<close> rounds a half upwards.\<close>

definition durationMinutes :: "int \<Rightarrow> int" where
  "durationMinutes t = (t + 30000) div 60000"

text \<open>
  \<open>fetchRoute\<close> up to its first \<open>await\<close>: \<open>setIsLoading(true)\<close> and the request, issued
  from the render whose effect this is.
\<close>

definition fetchRoute_start :: "world \<Rightarrow> world" where
  "fetchRoute_start w = w\<lparr> isLoading := True, inflight := inflight w @ [render_of w] \<rparr>"

text \<open>
  \<open>fetchRoute\<close> after the request has settled: the \<open>try\<close> block, the \<open>catch\<close> block (every
  \<open>throw\<close> and rejection ends there) and \<open>finally\<close>.  With a first path, reading absent
  coordinates raises before \<open>setPath\<close>; otherwise \<open>setPath\<close> and \<open>setEta\<close> run, and then
  \<open>fitBounds\<close> raises if there is no point.
\<close>

definition fetchRoute_catch :: "render \<Rightarrow> world \<Rightarrow> world" where
  "fetchRoute_catch r w = handleReset r (w\<lparr> alerts := alerts w @ [RoutingFailed] \<rparr>)"

definition fetchRoute_settle :: "render \<Rightarrow> response \<Rightarrow> world \<Rightarrow> world" where
  "fetchRoute_settle r resp w =
     (let w' =
        (case resp of
           FetchRejected \<Rightarrow> fetchRoute_catch r w
         | NotOk status \<Rightarrow> fetchRoute_catch r w
         | JsonRejected \<Rightarrow> fetchRoute_catch r w
         | Body paths \<Rightarrow>
             (case paths of
                Some (rt # rest) \<Rightarrow>
                  (case coordinates rt of
                     None \<Rightarrow> fetchRoute_catch r w
                   | Some cs \<Rightarrow>
                       (let decodedPath = map (\<lambda>p. (snd p, fst p)) cs;
                            w1 = w\<lparr> path := Some decodedPath,
                                    eta := Some (AboutMinutesWalking (durationMinutes (time rt))) \<rparr>
                        in if decodedPath = [] then fetchRoute_catch r w1 else w1))
              | _ \<Rightarrow> fetchRoute_catch r w))
      in w'\<lparr> isLoading := False \<rparr>)"

text \<open>
  The route effect runs after a render in which \<open>selectionState\<close>, \<open>markers\<close> or
  \<open>mapInstance\<close> has changed, and returns early unless the path is confirmed with two
  markers on an existing map.
\<close>

definition routeEffect :: "world \<Rightarrow> world \<Rightarrow> world" where
  "routeEffect old w =
     (if selectionState old = selectionState w \<and> markers old = markers w
         \<and> mapInstance old = mapInstance w then w
      else if selectionState w \<noteq> PATH_CONFIRMED \<or> length (markers w) \<noteq> 2 \<or> \<not> mapInstance w
      then w
      else fetchRoute_start w)"

text \<open>
  The match effect runs after a render in which \<open>selectionState\<close> has changed: first the
  cleanup of its previous run, then its body.
\<close>

definition matchEffect :: "world \<Rightarrow> world \<Rightarrow> world" where
  "matchEffect old w =
     (if selectionState old = selectionState w then w
      else
        (let w1 = clearMatchInterval w in
         if selectionState w1 = SEARCHING_FOR_MATCH then
           w1\<lparr> matchedUsersCount := 0, matchIntervalRef := Some (nextTimer w1),
               timers := timers w1 @ [nextTimer w1], nextTimer := nextTimer w1 + 1 \<rparr>
         else w1))"

text \<open>The callback given to \<open>window.setInterval\<close>.\<close>

definition intervalCallback :: "world \<Rightarrow> world" where
  "intervalCallback w =
     (let newCount = matchedUsersCount w + 1;
          w1 = (if newCount \<ge> 3 then (clearMatchInterval w)\<lparr> selectionState := MATCH_FOUND \<rparr>
                else w)
      in w1\<lparr> matchedUsersCount := newCount \<rparr>)"

text \<open>The map effect, run once the component is mounted: \<open>setMapInstance(map)\<close>.\<close>

definition mapEffect :: "world \<Rightarrow> world" where
  "mapEffect w = (if \<not> mapInstance w then w\<lparr> mapInstance := True \<rparr> else w)"

text \<open>
  What can happen to the component.  A button can be pressed when the markup renders it
  and does not disable it: the confirm and reset buttons exist in \<open>PATH_CONFIRMED\<close> and
  are disabled while \<open>isLoading\<close>; the cancel button exists in \<open>SEARCHING_FOR_MATCH\<close> and
  the finish button in \<open>MATCH_FOUND\<close>, and both call \<open>handleReset\<close>.  An interval fires
  only while the browser holds it, and a fetch settles only while it is in flight.
\<close>

datatype event =
  Mount
| MapClick latlng
| ConfirmClick
| ResetClick
| CancelClick
| FinishClick
| FetchSettles nat response
| IntervalFires nat

fun handle :: "event \<Rightarrow> world \<Rightarrow> world" where
  "handle Mount w = mapEffect w"
| "handle (MapClick e) w = (if clickRegistered w then handleMapClick e w else w)"
| "handle ConfirmClick w =
     (if selectionState w = PATH_CONFIRMED \<and> \<not> isLoading w then handleConfirm w else w)"
| "handle ResetClick w =
     (if selectionState w = PATH_CONFIRMED \<and> \<not> isLoading w then handleReset (render_of w) w
      else w)"
| "handle CancelClick w =
     (if selectionState w = SEARCHING_FOR_MATCH then handleReset (render_of w) w else w)"
| "handle FinishClick w =
     (if selectionState w = MATCH_FOUND then handleReset (render_of w) w else w)"
| "handle (FetchSettles n resp) w =
     (if n < length (inflight w) then
        fetchRoute_settle (inflight w ! n) resp
          (w\<lparr> inflight := take n (inflight w) @ drop (Suc n) (inflight w) \<rparr>)
      else w)"
| "handle (IntervalFires i) w = (if i \<in> set (timers w) then intervalCallback w else w)"

text \<open>
  One event: the handler runs, the component renders again, and the effects whose
  dependencies have changed run, in the order of the source.
\<close>

definition step :: "event \<Rightarrow> world \<Rightarrow> world" where
  "step ev w = matchEffect w (routeEffect w (handle ev w))"

fun run :: "event list \<Rightarrow> world \<Rightarrow> world" where
  "run [] w = w"
| "run (ev # evs) w = run evs (step ev w)"

section \<open>Vocabulary of the properties\<close>

text \<open>
  The state that a full reset leaves: first phase, no markers, no path, no ETA, counter
  at 0, not loading, no interval held by the ref or by the browser.
\<close>

definition isResetState :: "world \<Rightarrow> bool" where
  "isResetState w =
     (selectionState w = SELECTING_START \<and> markers w = [] \<and> path w = None \<and> eta w = None \<and>
      matchedUsersCount w = 0 \<and> \<not> isLoading w \<and> matchIntervalRef w = None \<and> timers w = [])"

text \<open>
  The coordinates that \<open>fetchRoute\<close> reads from a response, if it gets that far: those of
  the first path of a body.  The response is accepted, and nothing thrown, when there is at
  least one of them.
\<close>

fun firstCoordinates :: "response \<Rightarrow> (real \<times> real) list option" where
  "firstCoordinates (Body (Some (rt # rest))) = coordinates rt"
| "firstCoordinates resp = None"

definition accepted :: "response \<Rightarrow> bool" where
  "accepted resp = (case firstCoordinates resp of Some (c # cs) \<Rightarrow> True | _ \<Rightarrow> False)"

text \<open>The events that call \<open>handleReset\<close> when they are handled.\<close>

fun resets :: "event \<Rightarrow> bool" where
  "resets ResetClick = True"
| "resets CancelClick = True"
| "resets FinishClick = True"
| "resets (FetchSettles n resp) = (\<not> accepted resp)"
| "resets ev = False"

text \<open>The positions of the map clicks among some events, in order.\<close>

fun click_of :: "event \<Rightarrow> latlng list" where
  "click_of (MapClick e) = [e]"
| "click_of ev = []"

definition clicks_of :: "event list \<Rightarrow> latlng list" where
  "clicks_of evs = concat (map click_of evs)"

text \<open>The markers that a sequence of clicks is to leave: one for each of the first two.\<close>

fun markersAfter :: "latlng list \<Rightarrow> marker list" where
  "markersAfter [] = []"
| "markersAfter [a] = [createMarker a StartMarker]"
| "markersAfter (a # b # cs) = [createMarker a StartMarker, createMarker b EndMarker]"

text \<open>The interval with handle \<open>i\<close> fires \<open>k\<close> times.\<close>

definition ticks :: "nat \<Rightarrow> nat \<Rightarrow> world \<Rightarrow> world" where
  "ticks i k w = run (replicate k (IntervalFires i)) w"

text \<open>
  A world with a route fetch in flight: the component is mounted and the map has been
  clicked twice.  A response with a route of a single coordinate, and one with a route
  without any.
\<close>

definition fetching :: world where
  "fetching = run [Mount, MapClick (35.70, 51.40), MapClick (35.71, 51.41)] init"

definition onePoint :: response where
  "onePoint = Body (Some [\<lparr> coordinates = Some [(51.4, 35.7)], time = 90000 \<rparr>])"

definition noPoint :: response where
  "noPoint = Body (Some [\<lparr> coordinates = Some [], time = 0 \<rparr>])"

text \<open>The world after that fetch has settled with that response.\<close>

definition routed :: world where
  "routed = run [Mount, MapClick (35.70, 51.40), MapClick (35.71, 51.41),
     FetchSettles 0 onePoint] init"

text \<open>
  What holds of every world the component can reach: the browser holds the interval of
  the ref and no other; a fetch is in flight exactly while \<open>isLoading\<close>, issued from the
  render of the current markers and path; and the markers, the ref and the loading flag
  fit the phase.
\<close>

definition consistent :: "world \<Rightarrow> bool" where
  "consistent w =
     (timers w = (case matchIntervalRef w of None \<Rightarrow> [] | Some i \<Rightarrow> [i]) \<and>
      inflight w = (if isLoading w then [render_of w] else []) \<and>
      (case selectionState w of
         SELECTING_START \<Rightarrow>
           markers w = [] \<and> matchIntervalRef w = None \<and> \<not> isLoading w \<and>
           (mapInstance w \<or> (path w = None \<and> eta w = None \<and> matchedUsersCount w = 0))
       | SELECTING_END \<Rightarrow>
           length (markers w) = 1 \<and> mapInstance w \<and> matchIntervalRef w = None \<and> \<not> isLoading w
       | PATH_CONFIRMED \<Rightarrow>
           length (markers w) = 2 \<and> mapInstance w \<and> matchIntervalRef w = None
       | SEARCHING_FOR_MATCH \<Rightarrow>
           length (markers w) = 2 \<and> mapInstance w \<and> \<not> isLoading w
       | MATCH_FOUND \<Rightarrow>
           length (markers w) = 2 \<and> mapInstance w \<and> matchIntervalRef w = None \<and> \<not> isLoading w))"

text \<open>The same, for a run without reset in which the map has been clicked at \<open>cs\<close>.\<close>

definition clicked :: "latlng list \<Rightarrow> world \<Rightarrow> bool" where
  "clicked cs w =
     (consistent w \<and> mapInstance w \<and> markers w = markersAfter cs \<and>
      (case cs of
         [] \<Rightarrow> selectionState w = SELECTING_START
       | [a] \<Rightarrow> selectionState w = SELECTING_END
       | a # b # cs' \<Rightarrow>
           selectionState w \<noteq> SELECTING_START \<and> selectionState w \<noteq> SELECTING_END))"

section \<open>The component of \<open>part_000\<close>\<close>

text \<open>
  The other source file holds an earlier \<open>App\<close>: three phases, no match search, a route
  taken from a directions service that answers with a \<open>status\<close> and an encoded polyline,
  which \<open>decodePolyline\<close> turns into the path.  Its names carry a \<open>0\<close> here.  The API key
  comes from the environment and is kept as "a key is present".  The confirm and reset
  buttons are always part of the markup, disabled only while \<open>isLoading\<close>.
\<close>

datatype SelectionState0 = SELECTING_START0 | SELECTING_END0 | PATH_CONFIRMED0

text \<open>
  The alerts: the API key is missing; routing failed, try other points; the routing
  service could not be reached; searching for a companion (\<open>handleConfirm\<close>).  The ETA
  text says "about", the duration text of the response, "of walking".
\<close>

datatype alert_text0 = ApiKeyMissing0 | RoutingFailed0 | ConnectionFailed0 | Searching0

datatype eta_text0 = AboutWalking0 string

record world0 =
  apiKey0 :: bool
  mapInstance0 :: bool
  markers0 :: "marker list"
  path0 :: "latlng list option"
  eta0 :: "eta_text0 option"
  isLoading0 :: bool
  selectionState0 :: SelectionState0
  inflight0 :: "render list"
  alerts0 :: "alert_text0 list"

definition init0 :: "bool \<Rightarrow> world0" where
  "init0 key = \<lparr> apiKey0 = key, mapInstance0 = False, markers0 = [], path0 = None, eta0 = None,
                 isLoading0 = False, selectionState0 = SELECTING_START0, inflight0 = [],
                 alerts0 = [] \<rparr>"

definition render_of0 :: "world0 \<Rightarrow> render" where
  "render_of0 w = \<lparr> r_mapInstance = mapInstance0 w, r_markers = markers0 w, r_path = path0 w \<rparr>"

definition clickRegistered0 :: "world0 \<Rightarrow> bool" where
  "clickRegistered0 w = (\<not> (\<not> mapInstance0 w \<or> isLoading0 w))"

definition handleMapClick0 :: "latlng \<Rightarrow> world0 \<Rightarrow> world0" where
  "handleMapClick0 e w =
     (if selectionState0 w = SELECTING_START0 \<or> selectionState0 w = SELECTING_END0 then
        (if selectionState0 w = SELECTING_START0 then
           w\<lparr> markers0 := [createMarker e StartMarker], selectionState0 := SELECTING_END0 \<rparr>
         else if selectionState0 w = SELECTING_END0 then
           w\<lparr> markers0 := markers0 w @ [createMarker e EndMarker],
               selectionState0 := PATH_CONFIRMED0 \<rparr>
         else w)
      else w)"

definition handleReset0 :: "render \<Rightarrow> world0 \<Rightarrow> world0" where
  "handleReset0 r w =
     (if \<not> r_mapInstance r then w
      else
        (let w2 = w\<lparr> markers0 := [] \<rparr>;
             w3 = (if r_path r \<noteq> None then w2\<lparr> path0 := None \<rparr> else w2)
         in w3\<lparr> eta0 := None, selectionState0 := SELECTING_START0, isLoading0 := False \<rparr>))"

definition handleConfirm0 :: "world0 \<Rightarrow> world0" where
  "handleConfirm0 w = w\<lparr> alerts0 := alerts0 w @ [Searching0] \<rparr>"

text \<open>
  A settled request: \<open>fetch\<close> or \<open>response.json()\<close> rejects, or a body arrives with its
  \<open>status\<close> and its \<open>routes\<close> (none when absent), of which the code reads the first
  one's \<open>overview_polyline.points\<close> and \<open>legs[0].duration.text\<close>; either is \<open>None\<close> when
  reading it raises a \<open>TypeError\<close>.
\<close>

record route0 =
  points :: "js_string option"
  duration_text :: "string option"

datatype response0 =
  FetchRejected0
| JsonRejected0
| Body0 string "route0 list"

text \<open>
  \<open>fetchRoute\<close> up to its first \<open>await\<close>: without an API key it alerts, resets and
  returns; no request is made.
\<close>

definition fetchRoute0_start :: "world0 \<Rightarrow> world0" where
  "fetchRoute0_start w =
     (let w1 = w\<lparr> isLoading0 := True \<rparr> in
      if \<not> apiKey0 w then handleReset0 (render_of0 w) (w1\<lparr> alerts0 := alerts0 w1 @ [ApiKeyMissing0] \<rparr>)
      else w1\<lparr> inflight0 := inflight0 w1 @ [render_of0 w] \<rparr>)"

text \<open>
  \<open>fetchRoute\<close> after the request has settled.  A status other than \<open>OK\<close> takes the
  \<open>else\<close> branch.  A rejection ends in \<open>catch\<close>, and so does every \<open>TypeError\<close>: that of
  reading the polyline of the first route (before \<open>setPath\<close>), that of reading its duration
  text (after \<open>setPath\<close>, before \<open>setEta\<close>), and the failure of \<open>fitBounds\<close> on a path
  without points (after both).  \<open>finally\<close> clears the loading flag.
\<close>

definition fetchRoute0_catch :: "render \<Rightarrow> world0 \<Rightarrow> world0" where
  "fetchRoute0_catch r w = handleReset0 r (w\<lparr> alerts0 := alerts0 w @ [ConnectionFailed0] \<rparr>)"

definition fetchRoute0_settle :: "render \<Rightarrow> response0 \<Rightarrow> world0 \<Rightarrow> world0" where
  "fetchRoute0_settle r resp w =
     (let w' =
        (case resp of
           FetchRejected0 \<Rightarrow> fetchRoute0_catch r w
         | JsonRejected0 \<Rightarrow> fetchRoute0_catch r w
         | Body0 status routes \<Rightarrow>
             (if status = ''OK'' then
                (case routes of
                   [] \<Rightarrow> fetchRoute0_catch r w
                 | rt # rest \<Rightarrow>
                     (case points rt of
                        None \<Rightarrow> fetchRoute0_catch r w
                      | Some encodedPolyline \<Rightarrow>
                          (let decodedPath = decodePolyline encodedPolyline;
                               w1 = w\<lparr> path0 := Some decodedPath \<rparr>
                           in case duration_text rt of
                                None \<Rightarrow> fetchRoute0_catch r w1
                              | Some durationText \<Rightarrow>
                                  (let w2 = w1\<lparr> eta0 := Some (AboutWalking0 durationText) \<rparr>
                                   in if decodedPath = [] then fetchRoute0_catch r w2 else w2))))
              else handleReset0 r (w\<lparr> alerts0 := alerts0 w @ [RoutingFailed0] \<rparr>)))
      in w'\<lparr> isLoading0 := False \<rparr>)"

definition routeEffect0 :: "world0 \<Rightarrow> world0 \<Rightarrow> world0" where
  "routeEffect0 old w =
     (if selectionState0 old = selectionState0 w \<and> markers0 old = markers0 w
         \<and> mapInstance0 old = mapInstance0 w then w
      else if selectionState0 w = PATH_CONFIRMED0 \<and> length (markers0 w) = 2 \<and> mapInstance0 w
      then fetchRoute0_start w
      else w)"

definition mapEffect0 :: "world0 \<Rightarrow> world0" where
  "mapEffect0 w = (if \<not> mapInstance0 w then w\<lparr> mapInstance0 := True \<rparr> else w)"

datatype event0 =
  Mount0
| MapClick0 latlng
| ConfirmClick0
| ResetClick0
| FetchSettles0 nat response0

fun handle0 :: "event0 \<Rightarrow> world0 \<Rightarrow> world0" where
  "handle0 Mount0 w = mapEffect0 w"
| "handle0 (MapClick0 e) w = (if clickRegistered0 w then handleMapClick0 e w else w)"
| "handle0 ConfirmClick0 w = (if \<not> isLoading0 w then handleConfirm0 w else w)"
| "handle0 ResetClick0 w = (if \<not> isLoading0 w then handleReset0 (render_of0 w) w else w)"
| "handle0 (FetchSettles0 n resp) w =
     (if n < length (inflight0 w) then
        fetchRoute0_settle (inflight0 w ! n) resp
          (w\<lparr> inflight0 := take n (inflight0 w) @ drop (Suc n) (inflight0 w) \<rparr>)
      else w)"

definition step0 :: "event0 \<Rightarrow> world0 \<Rightarrow> world0" where
  "step0 ev w = routeEffect0 w (handle0 ev w)"

fun run0 :: "event0 list \<Rightarrow> world0 \<Rightarrow> world0" where
  "run0 [] w = w"
| "run0 (ev # evs) w = run0 evs (step0 ev w)"

definition isResetState0 :: "world0 \<Rightarrow> bool" where
  "isResetState0 w =
     (selectionState0 w = SELECTING_START0 \<and> markers0 w = [] \<and> path0 w = None \<and>
      eta0 w = None \<and> \<not> isLoading0 w)"

text \<open>The polyline that \<open>fetchRoute\<close> decodes, if it gets that far.\<close>

fun firstPolyline0 :: "response0 \<Rightarrow> js_string option" where
  "firstPolyline0 (Body0 status (rt # rest)) = (if status = ''OK'' then points rt else None)"
| "firstPolyline0 resp = None"

definition consistent0 :: "world0 \<Rightarrow> bool" where
  "consistent0 w =
     (inflight0 w = (if isLoading0 w then [render_of0 w] else []) \<and>
      (case selectionState0 w of
         SELECTING_START0 \<Rightarrow> markers0 w = [] \<and> \<not> isLoading0 w \<and>
           (mapInstance0 w \<or> (path0 w = None \<and> eta0 w = None))
       | SELECTING_END0 \<Rightarrow> length (markers0 w) = 1 \<and> mapInstance0 w \<and> \<not> isLoading0 w
       | PATH_CONFIRMED0 \<Rightarrow> length (markers0 w) = 2 \<and> mapInstance0 w))"

text \<open>A world of this component with a fetch in flight (an API key is present).\<close>

definition fetching0 :: world0 where
  "fetching0 = run0 [Mount0, MapClick0 (35.70, 51.40), MapClick0 (35.71, 51.41)] (init0 True)"

section \<open>Properties of the decoder\<close>

lemma readGroup_past_end:
  "length encoded \<le> index \<Longrightarrow> readGroup encoded index shift result = (result, index + 1)"
  by (subst readGroup.simps) (simp add: charCodeAt_def js_shl_def)

lemma readGroup_mid:
  "endsMidGroup encoded \<Longrightarrow> index < length encoded \<Longrightarrow>
   snd (readGroup encoded index shift result) < length encoded \<or>
   snd (readGroup encoded index shift result) = length encoded + 1"
proof (induction encoded index shift result rule: readGroup.induct)
  case (1 encoded index shift result)
  let ?b = "map_option (\<lambda>c. c - 63) (charCodeAt encoded index)"
  show ?case
  proof (cases "js_ge ?b 32")
    case True
    let ?r = "or result (js_shl (and (toInt32 ?b) 31) shift)"
    have eq: "readGroup encoded index shift result = readGroup encoded (index + 1) (shift + 5) ?r"
      using True by (subst readGroup.simps) (simp add: Let_def)
    show ?thesis
    proof (cases "index + 1 < length encoded")
      case True
      with "1.IH"[OF refl refl refl refl \<open>js_ge ?b 32\<close> "1.prems"(1)] eq show ?thesis by simp
    next
      case False
      then have "readGroup encoded (index + 1) (shift + 5) ?r = (?r, index + 2)"
        by (simp add: readGroup_past_end)
      with eq False "1.prems"(2) show ?thesis by simp
    qed
  next
    case False
    then have eq: "snd (readGroup encoded index shift result) = index + 1"
      by (subst readGroup.simps) (simp add: Let_def)
    have "index \<noteq> length encoded - 1"
    proof
      assume "index = length encoded - 1"
      then have "encoded ! index = last encoded"
        using "1.prems" by (simp add: last_conv_nth endsMidGroup_def)
      with False "1.prems" show False
        by (simp add: charCodeAt_def endsMidGroup_def)
    qed
    with eq "1.prems"(2) show ?thesis by simp
  qed
qed

lemma decodeLoop_unfold:
  "index < length encoded \<Longrightarrow>
   decodeLoop encoded index lat lng pts =
     decodeLoop encoded (snd (readGroup encoded (snd (readGroup encoded index 0 0)) 0 0))
       (lat + delta (fst (readGroup encoded index 0 0)))
       (lng + delta (fst (readGroup encoded (snd (readGroup encoded index 0 0)) 0 0)))
       (pts @ [(real_of_int (lat + delta (fst (readGroup encoded index 0 0))) / 100000,
                 real_of_int (lng + delta (fst (readGroup encoded (snd (readGroup encoded index 0 0)) 0 0))) / 100000)])"
  by (subst decodeLoop.simps) (simp add: Let_def split: prod.splits)

lemma decodeLoop_done:
  "length encoded \<le> index \<Longrightarrow> decodeLoop encoded index lat lng pts = (pts, index)"
  by (subst decodeLoop.simps) simp

lemma decodeLoop_path_grows:
  "length pts \<le> length (fst (decodeLoop encoded index lat lng pts))"
proof (induction encoded index lat lng pts rule: decodeLoop.induct)
  case (1 encoded index lat lng pts)
  show ?case
  proof (cases "index < length encoded")
    case True
    show ?thesis
      using "1.IH"[OF True prod.collapse refl prod.collapse refl]
      by (subst decodeLoop_unfold[OF True]) simp
  next
    case False
    then show ?thesis by (simp add: decodeLoop_done)
  qed
qed

lemma decodeLoop_mid:
  "endsMidGroup encoded \<Longrightarrow> index < length encoded \<Longrightarrow>
   snd (decodeLoop encoded index lat lng pts) = length encoded + 1 \<or>
   snd (decodeLoop encoded index lat lng pts) = length encoded + 2"
proof (induction encoded index lat lng pts rule: decodeLoop.induct)
  case (1 encoded index lat lng pts)
  let ?i1 = "snd (readGroup encoded index 0 0)"
  let ?i2 = "snd (readGroup encoded ?i1 0 0)"
  note unf = decodeLoop_unfold[OF "1.prems"(2), of lat lng pts]
  note IH = "1.IH"[OF "1.prems"(2) prod.collapse refl prod.collapse refl "1.prems"(1)]
  from readGroup_mid[OF "1.prems", of 0 0]
  consider (a) "?i1 < length encoded" | (b) "?i1 = length encoded + 1" by blast
  then show ?case
  proof cases
    case a
    from readGroup_mid[OF "1.prems"(1) a, of 0 0]
    consider (c) "?i2 < length encoded" | (d) "?i2 = length encoded + 1" by blast
    then show ?thesis
    proof cases
      case c
      with IH unf show ?thesis by simp
    next
      case d
      with unf show ?thesis by (simp add: decodeLoop_done)
    qed
  next
    case b
    then have "?i2 = length encoded + 2" by (simp add: readGroup_past_end)
    with unf show ?thesis by (simp add: decodeLoop_done)
  qed
qed

lemma decodeLoop_nonempty:
  assumes "index < length encoded"
  shows "fst (decodeLoop encoded index lat lng pts) \<noteq> []"
proof -
  obtain i a b pt where
    unf: "decodeLoop encoded index lat lng pts = decodeLoop encoded i a b (pts @ [pt])"
    using decodeLoop_unfold[OF assms] by blast
  have "length (pts @ [pt]) \<le> length (fst (decodeLoop encoded i a b (pts @ [pt])))"
    by (rule decodeLoop_path_grows)
  then have "fst (decodeLoop encoded i a b (pts @ [pt])) \<noteq> []"
    by auto
  with unf show ?thesis by simp
qed

text \<open>
  C5 (as the code has it): the fixture holds three points, and \<open>decodePolyline\<close> returns
  all three: \<open>(38.5, -120.2)\<close>, \<open>(40.7, -120.95)\<close> and \<open>(43.252, -126.453)\<close>.
\<close>

theorem decodePolyline_fixture:
  "decodePolyline fixture = [(38.5, -120.2), (40.7, -120.95), (43.252, -126.453)]"
  by code_simp

text \<open>
  C5 as stated fails: the result on the fixture is not the two-point sequence
  \<open>[(38.5, -120.2), (40.7, -120.95)]\<close>.
\<close>

theorem decodePolyline_fixture_not_two_points:
  "decodePolyline fixture \<noteq> [(38.5, -120.2), (40.7, -120.95)]"
  by code_simp

text \<open>
  C6 (as the code has it): on a string that ends in the middle of a group,
  \<open>decodePolyline\<close> returns a non-empty pts, and \<open>charCodeAt\<close> has been called at one or
  two indices beyond the last character: \<open>index\<close> ends at \<open>length + 1\<close> or \<open>length + 2\<close>.
  Each such read gives \<open>NaN\<close>, which adds no bits and ends the group.
\<close>

theorem decodePolyline_unterminated:
  assumes "endsMidGroup encoded"
  shows "decodePolyline encoded \<noteq> [] \<and>
         (finalIndex encoded = length encoded + 1 \<or> finalIndex encoded = length encoded + 2)"
proof -
  from assms have pos: "0 < length encoded" by (simp add: endsMidGroup_def)
  have "decodePolyline encoded \<noteq> []"
    unfolding decodePolyline_def by (rule decodeLoop_nonempty[OF pos])
  moreover from decodeLoop_mid[OF assms pos, of 0 0 "[]"]
  have "finalIndex encoded = length encoded + 1 \<or> finalIndex encoded = length encoded + 2"
    by (simp add: finalIndex_def)
  ultimately show ?thesis by simp
qed

theorem decodePolyline_unterminated_witness:
  "endsMidGroup (str ''?_'') \<and> decodePolyline (str ''?_'') \<noteq> [] \<and>
   (finalIndex (str ''?_'') = length (str ''?_'') + 1 \<or>
    finalIndex (str ''?_'') = length (str ''?_'') + 2)"
proof -
  have h: "endsMidGroup (str ''?_'')" by code_simp
  from decodePolyline_unterminated[OF h] h show ?thesis by simp
qed

text \<open>
  C6 as stated fails: the one-character string \<open>_\<close> ends in the middle of a group
  (its only character has \<open>b = 32\<close>), and \<open>decodePolyline\<close> returns the pts
  \<open>[(0, 0)]\<close> for it, after reads at the indices 1 and 2 of a string of length 1.
\<close>

theorem decodePolyline_unterminated_returns:
  "endsMidGroup (str ''_'') \<and> decodePolyline (str ''_'') = [(0, 0)] \<and>
   length (str ''_'') = 1 \<and> finalIndex (str ''_'') = 3"
  by code_simp

text \<open>
  C10: on the empty string \<open>decodePolyline\<close> returns the empty pts, and \<open>index\<close> is still
  0 when it returns: no character was read.
\<close>

theorem decodePolyline_empty:
  "decodePolyline [] = [] \<and> finalIndex [] = 0"
  by (simp add: decodePolyline_def finalIndex_def decodeLoop_done)

section \<open>Round trip through the reference encoder\<close>

text \<open>The reference encoder gives the fixture for the three points it stands for.\<close>

lemma encodePolyline_fixture:
  "encodePolyline [(38.5, -120.2), (40.7, -120.95), (43.252, -126.453)] = fixture"
  by (simp add: encodePolyline_def toE5_def fixture_def str_def encodeSigned_def
      encodeValue.simps not_int_def push_bit_eq_mult)

lemma take_drop_join: "or (take_bit 5 (k::int)) (push_bit 5 (drop_bit 5 k)) = k"
proof (rule bit_eqI)
  fix n
  show "bit (or (take_bit 5 k) (push_bit 5 (drop_bit 5 k))) n = bit k n"
  proof (cases "n < 5")
    case True
    then show ?thesis by (simp add: bit_simps)
  next
    case False
    then have "5 + (n - 5) = n" by simp
    with False show ?thesis by (simp add: bit_simps)
  qed
qed

lemma chunk_join:
  "or (push_bit shift (int (v mod 32))) (push_bit (shift + 5) (int (v div 32))) = push_bit shift (int v)"
proof -
  have m: "int (v mod 32) = take_bit 5 (int v)"
    by (simp add: take_bit_eq_mod zmod_int)
  have d: "int (v div 32) = drop_bit 5 (int v)"
    by (simp add: drop_bit_eq_div zdiv_int)
  have "push_bit (shift + 5) (drop_bit 5 (int v)) = push_bit shift (push_bit 5 (drop_bit 5 (int v)))"
    by (simp add: push_bit_push_bit add.commute)
  then have "or (push_bit shift (take_bit 5 (int v))) (push_bit (shift + 5) (drop_bit 5 (int v)))
      = push_bit shift (or (take_bit 5 (int v)) (push_bit 5 (drop_bit 5 (int v))))"
    by (simp only: push_bit_or)
  then show ?thesis
    by (simp only: m d take_drop_join)
qed

lemma pow30_split: "shift < 25 \<Longrightarrow> (2::nat) ^ (30 - shift) = 2 ^ (25 - shift) * 32"
proof -
  assume "shift < 25"
  then have "30 - shift = (25 - shift) + 5" by simp
  then show ?thesis by (simp only: power_add) simp
qed

lemma js_shl_small:
  assumes "0 \<le> x" "x < 2 ^ (30 - shift)" "shift < 30"
  shows "js_shl x shift = push_bit shift x"
proof -
  have "x * 2 ^ shift < 2 ^ (30 - shift) * 2 ^ shift"
    using assms by simp
  also have "\<dots> = (2::int) ^ (30 - shift + shift)"
    by (simp only: power_add)
  also have "\<dots> = 2 ^ 30"
    using assms(3) by simp
  finally have "push_bit shift x < 2 ^ 30" by (simp add: push_bit_eq_mult)
  then have lt: "push_bit shift x < 2 ^ 31" by simp
  have ge: "- (2 ^ 31) \<le> push_bit shift x"
  proof -
    have "- (2 ^ 31) \<le> (0::int)" by simp
    also have "0 \<le> push_bit shift x" using assms(1) by simp
    finally show ?thesis .
  qed
  have "signed_take_bit 31 (push_bit shift x) = push_bit shift x"
    using ge lt by (rule signed_take_bit_int_eq_self)
  moreover have "shift mod 32 = shift" using assms(3) by simp
  ultimately show ?thesis by (simp only: js_shl_def)
qed

lemma charCodeAt_mid: "charCodeAt (pre @ c # post) (length pre) = Some (int c)"
  by (simp add: charCodeAt_def)

lemma low5_of_chunk:
  assumes "0 \<le> b" "b < 64"
  shows "and (toInt32 (Some b)) 31 = b mod 32"
proof -
  have "signed_take_bit 31 b = b"
    by (rule signed_take_bit_int_eq_self) (use assms in auto)
  moreover have "and b 31 = take_bit 5 b"
    by (simp add: take_bit_eq_mask mask_eq_exp_minus_1)
  ultimately show ?thesis by (simp add: take_bit_eq_mod)
qed

lemma readGroup_continue:
  assumes "charCodeAt encoded index = Some c" "32 \<le> c - 63"
  shows "readGroup encoded index shift result =
         readGroup encoded (index + 1) (shift + 5)
           (or result (js_shl (and (toInt32 (Some (c - 63))) 31) shift))"
  using assms by (subst readGroup.simps) (simp add: Let_def)

lemma readGroup_stop:
  assumes "charCodeAt encoded index = Some c" "c - 63 < 32"
  shows "readGroup encoded index shift result =
         (or result (js_shl (and (toInt32 (Some (c - 63))) 31) shift), index + 1)"
  using assms by (subst readGroup.simps) (simp add: Let_def)

lemma readGroup_encodeValue:
  "v < 2 ^ (30 - shift) \<Longrightarrow> shift < 30 \<Longrightarrow>
   readGroup (pre @ encodeValue v @ post) (length pre) shift result =
     (or result (push_bit shift (int v)), length pre + length (encodeValue v))"
proof (induction v arbitrary: pre shift result rule: encodeValue.induct)
  case (1 v)
  show ?case
  proof (cases "32 \<le> v")
    case True
    let ?c = "v mod 32 + 32 + 63"
    let ?s = "pre @ encodeValue v @ post"
    have ev: "encodeValue v = ?c # encodeValue (v div 32)"
      using True by (subst encodeValue.simps) simp
    have cc: "charCodeAt ?s (length pre) = Some (int ?c)"
      by (simp only: ev append_Cons charCodeAt_mid)
    have b: "int ?c - 63 = int (v mod 32) + 32" by simp
    have low: "and (toInt32 (Some (int (v mod 32) + 32))) 31 = int (v mod 32)"
    proof -
      have "and (toInt32 (Some (int (v mod 32) + 32))) 31 = (int (v mod 32) + 32) mod 32"
        by (rule low5_of_chunk) auto
      then show ?thesis by simp
    qed
    have sh: "shift < 25"
    proof (rule ccontr)
      assume "\<not> shift < 25"
      then have "30 - shift \<le> 5" by simp
      then have "(2::nat) ^ (30 - shift) \<le> 2 ^ 5"
        by (rule power_increasing) simp
      with "1.prems"(1) True show False by simp
    qed
    then have sh5: "shift + 5 < 30" by simp
    have dv: "v div 32 < 2 ^ (30 - (shift + 5))"
    proof -
      have "v < 2 ^ (25 - shift) * 32"
        using "1.prems"(1) pow30_split[OF sh] by simp
      then have "v div 32 < 2 ^ (25 - shift)"
        by (simp add: less_mult_imp_div_less)
      moreover have "30 - (shift + 5) = 25 - shift" by simp
      ultimately show ?thesis by simp
    qed
    have small: "js_shl (int (v mod 32)) shift = push_bit shift (int (v mod 32))"
    proof (rule js_shl_small)
      have "v mod 32 \<le> v" by simp
      with "1.prems"(1) have "v mod 32 < 2 ^ (30 - shift)" by linarith
      then have "int (v mod 32) < int (2 ^ (30 - shift))" by (simp only: of_nat_less_iff)
      then show "int (v mod 32) < 2 ^ (30 - shift)" by simp
    qed (use "1.prems" in auto)
    have pre': "pre @ ?c # encodeValue (v div 32) @ post = (pre @ [?c]) @ encodeValue (v div 32) @ post"
      by simp
    have "readGroup ?s (length pre) shift result =
          readGroup ?s (length pre + 1) (shift + 5)
            (or result (js_shl (and (toInt32 (Some (int ?c - 63))) 31) shift))"
      by (rule readGroup_continue[OF cc]) simp
    also have "\<dots> = readGroup ((pre @ [?c]) @ encodeValue (v div 32) @ post) (length (pre @ [?c])) (shift + 5)
            (or result (push_bit shift (int (v mod 32))))"
      by (simp only: b low small ev append_Cons pre') simp
    also have "\<dots> = (or (or result (push_bit shift (int (v mod 32)))) (push_bit (shift + 5) (int (v div 32))),
                     length (pre @ [?c]) + length (encodeValue (v div 32)))"
      by (rule "1.IH"[OF True dv sh5])
    also have "\<dots> = (or result (push_bit shift (int v)), length pre + length (encodeValue v))"
      by (simp only: or.assoc chunk_join ev) simp
    finally show ?thesis .
  next
    case False
    let ?s = "pre @ encodeValue v @ post"
    have ev: "encodeValue v = [v + 63]"
      using False by (subst encodeValue.simps) simp
    have cc: "charCodeAt ?s (length pre) = Some (int (v + 63))"
      by (simp only: ev append_Cons charCodeAt_mid)
    have b: "int (v + 63) - 63 = int v" by simp
    have low: "and (toInt32 (Some (int v))) 31 = int v"
    proof -
      have "and (toInt32 (Some (int v))) 31 = int v mod 32"
        by (rule low5_of_chunk) (use False in auto)
      then show ?thesis using False by simp
    qed
    have small: "js_shl (int v) shift = push_bit shift (int v)"
    proof (rule js_shl_small)
      from "1.prems"(1) have "int v < int (2 ^ (30 - shift))" by (simp only: of_nat_less_iff)
      then show "int v < 2 ^ (30 - shift)" by simp
    qed (use "1.prems" in auto)
    have "readGroup ?s (length pre) shift result =
          (or result (js_shl (and (toInt32 (Some (int (v + 63) - 63))) 31) shift), length pre + 1)"
      by (rule readGroup_stop[OF cc]) (use False in simp)
    also have "\<dots> = (or result (push_bit shift (int v)), length pre + length (encodeValue v))"
      by (simp only: b low small ev) simp
    finally show ?thesis .
  qed
qed


lemma encodeValue_nonempty: "encodeValue v \<noteq> []"
  by (subst encodeValue.simps) simp

lemma encodeSigned_nonempty: "encodeSigned d \<noteq> []"
  by (simp add: encodeSigned_def encodeValue_nonempty)

lemma delta_zigzag:
  "delta (if d < 0 then not (push_bit 1 d) else push_bit 1 d) = d"
proof -
  have "(- (d * 2) - 1) mod 2 = 1" "(- (d * 2) - 1) div 2 = - d - 1"
    by presburger+
  then show ?thesis
    by (simp add: delta_def and_one_eq drop_bit_eq_div push_bit_eq_mult not_int_def)
qed

lemma zigzag_bound:
  fixes d :: int
  assumes "- (2 ^ 29) \<le> d" "d < 2 ^ 29"
  shows "0 \<le> (if d < 0 then not (push_bit 1 d) else push_bit 1 d)"
    and "(if d < 0 then not (push_bit 1 d) else push_bit 1 d) < 2 ^ 30"
  using assms by (auto simp: not_int_def push_bit_eq_mult)

lemma readGroup_encodeSigned:
  assumes "- (2 ^ 29) \<le> d" "d < 2 ^ 29"
  shows "readGroup (pre @ encodeSigned d @ post) (length pre) 0 0 =
         (if d < 0 then not (push_bit 1 d) else push_bit 1 d, length pre + length (encodeSigned d))"
proof -
  let ?z = "if d < 0 then not (push_bit 1 d) else push_bit 1 d"
  from zigzag_bound[OF assms] have z: "0 \<le> ?z" "?z < 2 ^ 30" by blast+
  then have "nat ?z < 2 ^ (30 - 0)"
    by (simp add: nat_less_iff)
  then have "readGroup (pre @ encodeValue (nat ?z) @ post) (length pre) 0 0 =
       (or 0 (push_bit 0 (int (nat ?z))), length pre + length (encodeValue (nat ?z)))"
    by (rule readGroup_encodeValue) simp
  moreover have "int (nat ?z) = ?z" using z(1) by simp
  ultimately show ?thesis
    by (simp add: encodeSigned_def)
qed

lemma decodeLoop_encodeFrom:
  assumes "\<forall>p \<in> set ps. \<bar>fst p\<bar> < 2 ^ 28 \<and> \<bar>snd p\<bar> < 2 ^ 28"
    and "\<bar>plat\<bar> < 2 ^ 28" "\<bar>plng\<bar> < 2 ^ 28"
  shows "decodeLoop (pre @ encodeFrom plat plng ps) (length pre) plat plng pts =
         (pts @ map fromE5 ps, length pre + length (encodeFrom plat plng ps))"
  using assms
proof (induction ps arbitrary: pre plat plng pts)
  case Nil
  show ?case by (simp add: decodeLoop_done)
next
  case (Cons p ps)
  obtain lat lng where p: "p = (lat, lng)" by (cases p)
  from Cons.prems p have b: "\<bar>lat\<bar> < 2 ^ 28" "\<bar>lng\<bar> < 2 ^ 28" by auto
  let ?e1 = "encodeSigned (lat - plat)"
  let ?e2 = "encodeSigned (lng - plng)"
  let ?rest = "encodeFrom lat lng ps"
  let ?s = "pre @ encodeFrom plat plng (p # ps)"
  have s1: "?s = pre @ ?e1 @ (?e2 @ ?rest)" by (simp add: p)
  have s2: "?s = (pre @ ?e1) @ ?e2 @ ?rest" by (simp add: p)
  have s3: "?s = (pre @ ?e1 @ ?e2) @ ?rest" by (simp add: p)
  have d1: "- (2 ^ 29) \<le> lat - plat" "lat - plat < 2 ^ 29"
    using b(1) Cons.prems(2) by auto
  have d2: "- (2 ^ 29) \<le> lng - plng" "lng - plng < 2 ^ 29"
    using b(2) Cons.prems(3) by auto
  have lt: "length pre < length ?s"
    using encodeSigned_nonempty[of "lat - plat"] by (simp add: s1)
  have r1: "readGroup ?s (length pre) 0 0 =
      (if lat - plat < 0 then not (push_bit 1 (lat - plat)) else push_bit 1 (lat - plat),
       length (pre @ ?e1))"
    unfolding s1 using readGroup_encodeSigned[OF d1] by simp
  have r2: "readGroup ?s (length (pre @ ?e1)) 0 0 =
      (if lng - plng < 0 then not (push_bit 1 (lng - plng)) else push_bit 1 (lng - plng),
       length (pre @ ?e1 @ ?e2))"
    unfolding s2 using readGroup_encodeSigned[OF d2, of "pre @ ?e1"] by simp
  have "decodeLoop ?s (length pre) plat plng pts =
        decodeLoop ?s (length (pre @ ?e1 @ ?e2)) lat lng (pts @ [fromE5 (lat, lng)])"
    by (subst decodeLoop_unfold[OF lt]) (simp only: r1 r2 fst_conv snd_conv delta_zigzag fromE5_def, simp)
  also have "\<dots> = ((pts @ [fromE5 (lat, lng)]) @ map fromE5 ps,
                   length (pre @ ?e1 @ ?e2) + length ?rest)"
    unfolding s3 by (rule Cons.IH) (use Cons.prems b in auto)
  finally show ?case by (simp add: p)
qed

lemma decodePolyline_encodeFrom:
  assumes "\<forall>p \<in> set ps. \<bar>fst p\<bar> < 2 ^ 28 \<and> \<bar>snd p\<bar> < 2 ^ 28"
  shows "decodePolyline (encodeFrom 0 0 ps) = map fromE5 ps"
  using decodeLoop_encodeFrom[OF assms, of 0 0 "[]" "[]"] by (simp add: decodePolyline_def)

lemma toE5_bound:
  assumes "validCoordinate p"
  shows "\<bar>fst (toE5 p)\<bar> < 2 ^ 28 \<and> \<bar>snd (toE5 p)\<bar> < 2 ^ 28"
proof -
  have "\<bar>round (x * 100000)\<bar> \<le> 18000000" if "- 180 \<le> x" "x \<le> 180" for x :: real
  proof -
    have "round (- 18000000 :: real) \<le> round (x * 100000)"
      by (rule round_mono) (use that in simp)
    moreover have "round (x * 100000) \<le> round (18000000 :: real)"
      by (rule round_mono) (use that in simp)
    ultimately show ?thesis by simp
  qed
  then have "\<bar>fst (toE5 p)\<bar> \<le> 18000000" "\<bar>snd (toE5 p)\<bar> \<le> 18000000"
    using assms by (auto simp: toE5_def validCoordinate_def)
  then show ?thesis by simp
qed

lemma fromE5_toE5_close:
  "\<bar>fst (fromE5 (toE5 p)) - fst p\<bar> \<le> 1 / 100000 \<and> \<bar>snd (fromE5 (toE5 p)) - snd p\<bar> \<le> 1 / 100000"
proof -
  have "\<bar>real_of_int (round (x * 100000)) / 100000 - x\<bar> \<le> 1 / 100000" for x :: real
  proof -
    have "\<bar>real_of_int (round (x * 100000)) - x * 100000\<bar> \<le> 1 / 2"
      by (rule of_int_round_abs_le)
    then have "\<bar>real_of_int (round (x * 100000)) - x * 100000\<bar> / 100000 \<le> (1 / 2) / 100000"
      by (simp add: divide_right_mono)
    moreover have "real_of_int (round (x * 100000)) / 100000 - x
        = (real_of_int (round (x * 100000)) - x * 100000) / 100000"
      by (simp add: field_simps)
    then have "\<bar>real_of_int (round (x * 100000)) / 100000 - x\<bar>
        = \<bar>real_of_int (round (x * 100000)) - x * 100000\<bar> / 100000"
      by (simp only: abs_divide)
    ultimately show ?thesis by simp
  qed
  then show ?thesis by (simp add: fromE5_def toE5_def)
qed

text \<open>
  C7: for every sequence of coordinates in range, decoding the reference encoding gives
  back a sequence of the same length whose points are the original ones rounded to five
  decimals, so each latitude and longitude is within \<open>1e-5\<close> of the original.
\<close>

theorem decode_encode_roundtrip:
  assumes "list_all validCoordinate ps"
  shows "decodePolyline (encodePolyline ps) = map (\<lambda>p. fromE5 (toE5 p)) ps \<and>
         length (decodePolyline (encodePolyline ps)) = length ps \<and>
         (\<forall>i < length ps.
            \<bar>fst (decodePolyline (encodePolyline ps) ! i) - fst (ps ! i)\<bar> \<le> 1 / 100000 \<and>
            \<bar>snd (decodePolyline (encodePolyline ps) ! i) - snd (ps ! i)\<bar> \<le> 1 / 100000)"
proof -
  have "\<forall>q \<in> set (map toE5 ps). \<bar>fst q\<bar> < 2 ^ 28 \<and> \<bar>snd q\<bar> < 2 ^ 28"
    using assms toE5_bound by (auto simp: list_all_iff)
  then have "decodePolyline (encodePolyline ps) = map fromE5 (map toE5 ps)"
    unfolding encodePolyline_def by (rule decodePolyline_encodeFrom)
  then have eq: "decodePolyline (encodePolyline ps) = map (\<lambda>p. fromE5 (toE5 p)) ps"
    by simp
  show ?thesis
    using fromE5_toE5_close by (simp add: eq)
qed

theorem decode_encode_roundtrip_witness:
  "validCoordinate (38.5, -120.2) \<and> validCoordinate (40.7, -120.95) \<and>
   decodePolyline (encodePolyline [(38.5, -120.2), (40.7, -120.95)]) =
     [(38.5, -120.2), (40.7, -120.95)]"
proof -
  have h: "list_all validCoordinate [(38.5, -120.2), (40.7, -120.95)]"
    by (simp add: validCoordinate_def)
  from decode_encode_roundtrip[OF h] h show ?thesis
    by (simp add: toE5_def fromE5_def)
qed

section \<open>Properties of the state machine\<close>

lemma consistent_init: "consistent init"
  by (simp add: consistent_def init_def render_of_def)

lemmas defs = step_def routeEffect_def matchEffect_def clearMatchInterval_def
  fetchRoute_start_def render_of_def

lemma consistent_Mount: "consistent w \<Longrightarrow> consistent (step Mount w)"
  by (cases "selectionState w"; cases "matchIntervalRef w"; cases "mapInstance w"; cases "isLoading w")
     (simp_all add: consistent_def defs mapEffect_def)

lemma consistent_MapClick: "consistent w \<Longrightarrow> consistent (step (MapClick e) w)"
  by (cases "selectionState w"; cases "matchIntervalRef w"; cases "mapInstance w"; cases "isLoading w")
     (simp_all add: consistent_def defs clickRegistered_def handleMapClick_def)

lemma consistent_ConfirmClick: "consistent w \<Longrightarrow> consistent (step ConfirmClick w)"
  by (cases "selectionState w"; cases "matchIntervalRef w"; cases "mapInstance w"; cases "isLoading w")
     (simp_all add: consistent_def defs handleConfirm_def)

lemma consistent_ResetClick: "consistent w \<Longrightarrow> consistent (step ResetClick w)"
  by (cases "selectionState w"; cases "matchIntervalRef w"; cases "mapInstance w"; cases "isLoading w";
      cases "path w")
     (simp_all add: consistent_def defs handleReset_def)

lemma consistent_CancelClick: "consistent w \<Longrightarrow> consistent (step CancelClick w)"
  by (cases "selectionState w"; cases "matchIntervalRef w"; cases "mapInstance w"; cases "isLoading w";
      cases "path w")
     (simp_all add: consistent_def defs handleReset_def)

lemma consistent_FinishClick: "consistent w \<Longrightarrow> consistent (step FinishClick w)"
  by (cases "selectionState w"; cases "matchIntervalRef w"; cases "mapInstance w"; cases "isLoading w";
      cases "path w")
     (simp_all add: consistent_def defs handleReset_def)


lemma consistent_FetchSettles: "consistent w \<Longrightarrow> consistent (step (FetchSettles n resp) w)"
proof (cases "n < length (inflight w)")
  case False
  assume "consistent w"
  with False show ?thesis
    by (cases "selectionState w"; cases "matchIntervalRef w"; cases "mapInstance w"; cases "isLoading w")
       (simp_all add: consistent_def defs)
next
  case True
  assume i: "consistent w"
  with True have l: "isLoading w" and n: "n = 0"
    by (auto simp: consistent_def split: if_splits)
  with i have p: "selectionState w = PATH_CONFIRMED" "mapInstance w" "matchIntervalRef w = None"
    by (cases "selectionState w"; simp add: consistent_def)+
  show ?thesis
  proof (cases resp)
    case (Body paths)
    show ?thesis
    proof (cases paths)
      case None
      with i l n p Body show ?thesis
        by (cases "path w") (simp_all add: consistent_def defs fetchRoute_settle_def fetchRoute_catch_def handleReset_def)
    next
      case (Some rs)
      show ?thesis
      proof (cases rs)
        case Nil
        with i l n p Body Some show ?thesis
          by (cases "path w")
             (simp_all add: consistent_def defs fetchRoute_settle_def fetchRoute_catch_def
                handleReset_def)
      next
        case (Cons rt rest)
        with i l n p Body Some show ?thesis
          by (cases "coordinates rt"; cases "path w"; cases "the (coordinates rt) = []")
             (simp_all add: consistent_def defs fetchRoute_settle_def fetchRoute_catch_def
                handleReset_def)
      qed
    qed
  qed (use i l n p in \<open>cases "path w";
        simp add: consistent_def defs fetchRoute_settle_def fetchRoute_catch_def handleReset_def\<close>)+
qed

lemma consistent_IntervalFires: "consistent w \<Longrightarrow> consistent (step (IntervalFires i) w)"
  by (cases "selectionState w"; cases "matchIntervalRef w"; cases "mapInstance w"; cases "isLoading w";
      cases "3 \<le> matchedUsersCount w + 1")
     (simp_all add: consistent_def defs intervalCallback_def)

lemma consistent_step: "consistent w \<Longrightarrow> consistent (step ev w)"
  by (cases ev)
     (simp_all only: consistent_Mount consistent_MapClick consistent_ConfirmClick consistent_ResetClick consistent_CancelClick
        consistent_FinishClick consistent_FetchSettles consistent_IntervalFires)

lemma consistent_run: "consistent w \<Longrightarrow> consistent (run evs w)"
  by (induction evs arbitrary: w) (simp_all add: consistent_step)

lemma consistent_reachable: "consistent (run evs init)"
  by (rule consistent_run[OF consistent_init])

text \<open>The world \<open>fetching\<close>, written out.\<close>

lemma fetching_eq:
  "fetching = \<lparr> mapInstance = True,
      markers = [((35.70, 51.40), StartMarker), ((35.71, 51.41), EndMarker)],
      path = None, eta = None, isLoading = True, matchedUsersCount = 0,
      matchIntervalRef = None, selectionState = PATH_CONFIRMED, timers = [], nextTimer = 1,
      inflight = [\<lparr> r_mapInstance = True,
         r_markers = [((35.70, 51.40), StartMarker), ((35.71, 51.41), EndMarker)],
         r_path = None \<rparr>],
      alerts = [] \<rparr>"
  by (simp add: fetching_def init_def defs mapEffect_def clickRegistered_def handleMapClick_def
      createMarker_def)

text \<open>
  C2: in every world the component can reach, whatever its phase, \<open>handleReset\<close> called
  from the current render leaves the reset state: phase \<open>SELECTING_START\<close>, no markers,
  no path, no ETA, match counter 0, not loading, and no match interval, neither in the
  ref nor in the browser.
\<close>

theorem handleReset_reachable:
  "isResetState (handleReset (render_of (run evs init)) (run evs init))"
proof -
  define w where "w = run evs init"
  have "consistent w" unfolding w_def by (rule consistent_reachable)
  then have "isResetState (handleReset (render_of w) w)"
    by (cases "selectionState w"; cases "matchIntervalRef w"; cases "mapInstance w"; cases "path w")
       (simp_all add: consistent_def isResetState_def handleReset_def clearMatchInterval_def render_of_def
          split: if_splits)
  then show ?thesis by (simp only: w_def)
qed

text \<open>
  A fetch that fails before \<open>setPath\<close> (\<open>fetch\<close> rejects, the status is not ok, the body
  cannot be read, the body has no path, or its first path has no coordinates to read)
  takes the machine from \<open>PATH_CONFIRMED\<close> to the reset state, shows the failure message
  and leaves no fetch in flight.
\<close>

lemma settle_failure:
  assumes "consistent w" "n < length (inflight w)" "firstCoordinates resp = None"
  shows "selectionState w = PATH_CONFIRMED \<and>
         isResetState (step (FetchSettles n resp) w) \<and>
         alerts (step (FetchSettles n resp) w) = alerts w @ [RoutingFailed] \<and>
         inflight (step (FetchSettles n resp) w) = []"
proof -
  from assms(1,2) have l: "isLoading w" and n: "n = 0"
    by (auto simp: consistent_def split: if_splits)
  with assms(1) have p: "selectionState w = PATH_CONFIRMED" "mapInstance w" "matchIntervalRef w = None"
    "timers w = []" "inflight w = [render_of w]"
    by (cases "selectionState w"; simp add: consistent_def)+
  from assms(3) consider "resp = FetchRejected" | s where "resp = NotOk s" | "resp = JsonRejected"
    | "resp = Body None" | "resp = Body (Some [])"
    | rt rest where "resp = Body (Some (rt # rest))" "coordinates rt = None"
    by (cases resp rule: firstCoordinates.cases) auto
  then show ?thesis
    using l n p
    by cases
      (cases "path w";
        simp add: defs isResetState_def fetchRoute_settle_def fetchRoute_catch_def handleReset_def)+
qed

lemma fetch_failure_before_setPath:
  assumes "n < length (inflight (run evs init))" "firstCoordinates resp = None"
  shows "selectionState (run evs init) = PATH_CONFIRMED \<and>
         isResetState (step (FetchSettles n resp) (run evs init)) \<and>
         alerts (step (FetchSettles n resp) (run evs init)) =
           alerts (run evs init) @ [RoutingFailed] \<and>
         inflight (step (FetchSettles n resp) (run evs init)) = []"
  using settle_failure[OF consistent_reachable assms] .

text \<open>
  A body whose first path has an empty list of coordinates fails after \<open>setPath\<close>:
  \<open>fitBounds\<close> raises, and \<open>handleReset\<close> runs from the render that issued the fetch.  If
  \<open>path\<close> was \<open>null\<close> in that render, \<open>if (path)\<close> skips \<open>setPath(null)\<close>: the phase, the
  markers and the ETA are reset and the failure is shown, but the path just stored stays.
\<close>

lemma settle_failure_after_setPath:
  assumes "consistent w" "n < length (inflight w)" "firstCoordinates resp = Some []"
    "path w = None"
  shows "selectionState (step (FetchSettles n resp) w) = SELECTING_START \<and>
         markers (step (FetchSettles n resp) w) = [] \<and>
         eta (step (FetchSettles n resp) w) = None \<and>
         alerts (step (FetchSettles n resp) w) = alerts w @ [RoutingFailed] \<and>
         path (step (FetchSettles n resp) w) = Some []"
proof -
  from assms(1,2) have l: "isLoading w" and n: "n = 0"
    by (auto simp: consistent_def split: if_splits)
  with assms(1) have p: "selectionState w = PATH_CONFIRMED" "mapInstance w" "matchIntervalRef w = None"
    "timers w = []" "inflight w = [render_of w]"
    by (cases "selectionState w"; simp add: consistent_def)+
  from assms(3) obtain rt rest where "resp = Body (Some (rt # rest))" "coordinates rt = Some []"
    by (cases resp rule: firstCoordinates.cases) auto
  with l n p assms(4) show ?thesis
    by (simp add: defs fetchRoute_settle_def fetchRoute_catch_def handleReset_def)
qed

text \<open>
  C3 fails on the code for such a response.  A fetch is in flight in \<open>PATH_CONFIRMED\<close>; it
  settles with a body whose only path has no coordinates, which is a response without a
  route; the failure is shown and the phase goes back to \<open>SELECTING_START\<close> with the
  markers cleared, but a path stays stored: the state is not the reset state.
\<close>

theorem fetch_failure_keeps_path:
  "selectionState fetching = PATH_CONFIRMED \<and> inflight fetching = [render_of fetching] \<and>
   firstCoordinates noPoint = Some [] \<and>
   selectionState (step (FetchSettles 0 noPoint) fetching) = SELECTING_START \<and>
   markers (step (FetchSettles 0 noPoint) fetching) = [] \<and>
   eta (step (FetchSettles 0 noPoint) fetching) = None \<and>
   alerts (step (FetchSettles 0 noPoint) fetching) = [RoutingFailed] \<and>
   path (step (FetchSettles 0 noPoint) fetching) = Some [] \<and>
   \<not> isResetState (step (FetchSettles 0 noPoint) fetching)"
proof -
  have b: "step (FetchSettles 0 noPoint) fetching =
     \<lparr> mapInstance = True, markers = [], path = Some [], eta = None, isLoading = False,
       matchedUsersCount = 0, matchIntervalRef = None, selectionState = SELECTING_START,
       timers = [], nextTimer = 1, inflight = [], alerts = [RoutingFailed] \<rparr>"
    by (simp add: fetching_eq noPoint_def step_def routeEffect_def matchEffect_def
        fetchRoute_settle_def fetchRoute_catch_def handleReset_def clearMatchInterval_def
        durationMinutes_def)
  have a: "selectionState fetching = PATH_CONFIRMED \<and> inflight fetching = [render_of fetching]"
    by (simp add: fetching_eq render_of_def)
  show ?thesis
    unfolding b using a by (simp add: noPoint_def isResetState_def)
qed

lemma markers_bound: "consistent w \<Longrightarrow> length (markers w) \<le> 2"
  by (cases "selectionState w") (simp_all add: consistent_def)

lemma clicked_Mount_init: "clicked [] (step Mount init)"
  using consistent_Mount[OF consistent_init]
  by (simp add: clicked_def) (simp add: init_def defs mapEffect_def)

lemma clicked_MapClick: "clicked cs w \<Longrightarrow> clicked (cs @ [e]) (step (MapClick e) w)"
proof -
  assume c: "clicked cs w"
  then have i: "consistent (step (MapClick e) w)" by (simp add: clicked_def consistent_MapClick)
  from c have iw: "consistent w" by (simp add: clicked_def)
  consider (none) "cs = []" | (one) a where "cs = [a]" | (more) a b cs' where "cs = a # b # cs'"
    by (cases cs rule: markersAfter.cases) auto
  then show ?thesis
  proof cases
    case none
    with c iw have "selectionState w = SELECTING_START" "mapInstance w" "\<not> isLoading w"
      by (simp_all add: clicked_def consistent_def)
    with none i show ?thesis
      by (cases "matchIntervalRef w")
         (simp_all add: clicked_def defs clickRegistered_def handleMapClick_def)
  next
    case one
    with c iw have "selectionState w = SELECTING_END" "mapInstance w" "\<not> isLoading w"
      "markers w = [createMarker a StartMarker]"
      by (simp_all add: clicked_def consistent_def)
    with one i show ?thesis
      by (cases "matchIntervalRef w")
         (simp_all add: clicked_def defs clickRegistered_def handleMapClick_def)
  next
    case more
    with c have "selectionState w \<noteq> SELECTING_START" "selectionState w \<noteq> SELECTING_END"
      "mapInstance w" "markers w = [createMarker a StartMarker, createMarker b EndMarker]"
      by (simp_all add: clicked_def)
    with more i show ?thesis
      by (cases "matchIntervalRef w")
         (simp_all add: clicked_def defs clickRegistered_def handleMapClick_def)
  qed
qed

lemma clicked_other:
  assumes "clicked cs w" "\<not> resets ev" "click_of ev = []"
  shows "clicked cs (step ev w)"
proof -
  from assms(1) have iw: "consistent w" and m: "mapInstance w" "markers w = markersAfter cs"
    by (simp_all add: clicked_def)
  have i: "consistent (step ev w)" using iw by (rule consistent_step)
  have keep: "mapInstance (step ev w) \<and> markers (step ev w) = markers w \<and>
      (selectionState w = SELECTING_START \<longrightarrow> selectionState (step ev w) = SELECTING_START) \<and>
      (selectionState w = SELECTING_END \<longrightarrow> selectionState (step ev w) = SELECTING_END) \<and>
      (selectionState w \<noteq> SELECTING_START \<and> selectionState w \<noteq> SELECTING_END \<longrightarrow>
         selectionState (step ev w) \<noteq> SELECTING_START \<and> selectionState (step ev w) \<noteq> SELECTING_END)"
  proof (cases ev)
    case Mount
    with iw m show ?thesis
      by (cases "selectionState w"; cases "matchIntervalRef w")
         (simp_all add: consistent_def defs mapEffect_def)
  next
    case (MapClick e)
    with assms(3) show ?thesis by simp
  next
    case ConfirmClick
    with iw m show ?thesis
      by (cases "selectionState w"; cases "matchIntervalRef w"; cases "isLoading w")
         (simp_all add: consistent_def defs handleConfirm_def)
  next
    case ResetClick
    with assms(2) show ?thesis by simp
  next
    case CancelClick
    with assms(2) show ?thesis by simp
  next
    case FinishClick
    with assms(2) show ?thesis by simp
  next
    case (FetchSettles n resp)
    with assms(2) have "accepted resp" by simp
    then obtain rt rest c cs where r: "resp = Body (Some (rt # rest))" "coordinates rt = Some (c # cs)"
      by (cases resp rule: firstCoordinates.cases)
         (auto simp: accepted_def split: option.splits list.splits)
    show ?thesis
    proof (cases "n < length (inflight w)")
      case True
      with iw have "isLoading w" "n = 0" by (auto simp: consistent_def split: if_splits)
      with iw m r FetchSettles show ?thesis
        by (cases "selectionState w"; cases "matchIntervalRef w")
           (simp_all add: consistent_def defs fetchRoute_settle_def)
    next
      case False
      with iw m FetchSettles show ?thesis
        by (cases "selectionState w"; cases "matchIntervalRef w")
           (simp_all add: consistent_def defs)
    qed
  next
    case (IntervalFires j)
    with iw m show ?thesis
      by (cases "selectionState w"; cases "matchIntervalRef w"; cases "isLoading w";
          cases "3 \<le> matchedUsersCount w + 1")
         (simp_all add: consistent_def defs intervalCallback_def)
  qed
  with assms(1) i show ?thesis
    by (cases cs rule: markersAfter.cases) (simp_all add: clicked_def)
qed

lemma clicked_step:
  assumes "clicked cs w" "\<not> resets ev"
  shows "clicked (cs @ click_of ev) (step ev w)"
proof (cases ev)
  case (MapClick e)
  with assms(1) show ?thesis by (simp add: clicked_MapClick)
qed (use assms in \<open>simp_all add: clicked_other\<close>)

lemma clicked_run:
  "clicked cs w \<Longrightarrow> list_all (\<lambda>ev. \<not> resets ev) evs \<Longrightarrow> clicked (cs @ clicks_of evs) (run evs w)"
proof (induction evs arbitrary: cs w)
  case Nil
  then show ?case by (simp add: clicks_of_def)
next
  case (Cons ev evs)
  from Cons.prems have "clicked (cs @ click_of ev) (step ev w)"
    by (simp add: clicked_step)
  from Cons.IH[OF this] Cons.prems(2) show ?case
    by (simp add: clicks_of_def)
qed

text \<open>
  C1: the machine never holds more than two markers, whatever the events.  And as long as
  no reset intervenes (no reset, cancel or finish button, no failed fetch), the markers
  are those of the first two map clicks: the first click stores the start marker, the
  second appends the end marker and leaves the selecting phases, and every later click is
  ignored, whatever else happens in between (the fetch settling with a route, the
  confirmation, the match interval firing).
\<close>

theorem markers_never_more_than_two:
  "length (markers (run evs init)) \<le> 2 \<and>
   (list_all (\<lambda>ev. \<not> resets ev) evs \<longrightarrow>
      markers (run (Mount # evs) init) = markersAfter (clicks_of evs) \<and>
      (case clicks_of evs of
         [] \<Rightarrow> selectionState (run (Mount # evs) init) = SELECTING_START
       | [a] \<Rightarrow> selectionState (run (Mount # evs) init) = SELECTING_END
       | a # b # cs \<Rightarrow> selectionState (run (Mount # evs) init) \<noteq> SELECTING_START \<and>
           selectionState (run (Mount # evs) init) \<noteq> SELECTING_END))"
proof -
  have "length (markers (run evs init)) \<le> 2"
    by (rule markers_bound[OF consistent_reachable])
  moreover have "clicked (clicks_of evs) (run (Mount # evs) init)"
    if "list_all (\<lambda>ev. \<not> resets ev) evs"
    using clicked_run[OF clicked_Mount_init that] by (simp only: run.simps append_Nil)
  then have "list_all (\<lambda>ev. \<not> resets ev) evs \<longrightarrow>
      markers (run (Mount # evs) init) = markersAfter (clicks_of evs) \<and>
      (case clicks_of evs of
         [] \<Rightarrow> selectionState (run (Mount # evs) init) = SELECTING_START
       | [a] \<Rightarrow> selectionState (run (Mount # evs) init) = SELECTING_END
       | a # b # cs \<Rightarrow> selectionState (run (Mount # evs) init) \<noteq> SELECTING_START \<and>
           selectionState (run (Mount # evs) init) \<noteq> SELECTING_END)"
    unfolding clicked_def by blast
  ultimately show ?thesis by blast
qed

theorem markers_never_more_than_two_witness:
  "length (markers (run [MapClick (1, 2), MapClick (3, 4), MapClick (5, 6)] init)) \<le> 2 \<and>
   markers (run [Mount, MapClick (1, 2), MapClick (3, 4), MapClick (5, 6)] init) =
     [createMarker (1, 2) StartMarker, createMarker (3, 4) EndMarker] \<and>
   selectionState (run [Mount, MapClick (1, 2), MapClick (3, 4), MapClick (5, 6)] init) \<noteq> SELECTING_END"
  using markers_never_more_than_two[of "[MapClick (1, 2), MapClick (3, 4), MapClick (5, 6)]"]
  by (simp add: clicks_of_def)




text \<open>
  The continuation of \<open>fetchRoute\<close> looks at no phase and no episode: in any state, a
  response with a route of at least one coordinate stores the path and the ETA.
\<close>

lemma settle_success:
  assumes "coordinates rt = Some (c # cs)"
  shows "path (fetchRoute_settle r (Body (Some (rt # rest))) w) =
           Some (map (\<lambda>p. (snd p, fst p)) (c # cs)) \<and>
         eta (fetchRoute_settle r (Body (Some (rt # rest))) w) =
           Some (AboutMinutesWalking (durationMinutes (time rt))) \<and>
         selectionState (fetchRoute_settle r (Body (Some (rt # rest))) w) = selectionState w \<and>
         markers (fetchRoute_settle r (Body (Some (rt # rest))) w) = markers w"
  using assms by (simp add: fetchRoute_settle_def)




lemma settle_accepted:
  assumes "consistent w" "n < length (inflight w)" "firstCoordinates resp = Some (c # cs)"
  shows "path (step (FetchSettles n resp) w) = Some (map (\<lambda>p. (snd p, fst p)) (c # cs)) \<and>
         selectionState (step (FetchSettles n resp) w) = PATH_CONFIRMED \<and>
         markers (step (FetchSettles n resp) w) = markers w \<and>
         alerts (step (FetchSettles n resp) w) = alerts w \<and>
         \<not> isLoading (step (FetchSettles n resp) w)"
proof -
  from assms(1,2) have l: "isLoading w" and n: "n = 0"
    by (auto simp: consistent_def split: if_splits)
  with assms(1) have p: "selectionState w = PATH_CONFIRMED" "mapInstance w" "matchIntervalRef w = None"
    "timers w = []" "inflight w = [render_of w]"
    by (cases "selectionState w"; simp add: consistent_def)+
  from assms(3) obtain rt rest where "resp = Body (Some (rt # rest))" "coordinates rt = Some (c # cs)"
    by (cases resp rule: firstCoordinates.cases) auto
  with l n p show ?thesis
    by (simp add: step_def routeEffect_def matchEffect_def fetchRoute_settle_def)
qed

lemma settle_refused:
  assumes "consistent w" "n < length (inflight w)"
    "firstCoordinates resp = None \<or> firstCoordinates resp = Some []"
  shows "selectionState (step (FetchSettles n resp) w) = SELECTING_START \<and>
         markers (step (FetchSettles n resp) w) = [] \<and>
         alerts (step (FetchSettles n resp) w) = alerts w @ [RoutingFailed] \<and>
         \<not> isLoading (step (FetchSettles n resp) w)"
proof -
  from assms(1,2) have l: "isLoading w" and n: "n = 0"
    by (auto simp: consistent_def split: if_splits)
  with assms(1) have p: "selectionState w = PATH_CONFIRMED" "mapInstance w" "matchIntervalRef w = None"
    "timers w = []" "inflight w = [render_of w]"
    by (cases "selectionState w"; simp add: consistent_def)+
  from assms(3) show ?thesis
  proof
    assume "firstCoordinates resp = None"
    from settle_failure[OF assms(1,2) this] show ?thesis
      by (simp add: isResetState_def)
  next
    assume "firstCoordinates resp = Some []"
    then obtain rt rest where "resp = Body (Some (rt # rest))" "coordinates rt = Some []"
      by (cases resp rule: firstCoordinates.cases) auto
    with l n p show ?thesis
      by (cases "path w")
         (simp_all add: defs fetchRoute_settle_def fetchRoute_catch_def handleReset_def)
  qed
qed

text \<open>
  C9 (as the code has it): a route that is accepted has at least one coordinate, not two.
  When a fetch in flight settles with a response whose first path has one coordinate or
  more, those coordinates are stored as the path (each pair swapped to latitude first),
  the phase stays \<open>PATH_CONFIRMED\<close> and no failure is shown.  With any other response (no
  body, no path, no coordinates to read, or an empty list of them) the failure is shown
  and the phase goes back to \<open>SELECTING_START\<close> with the markers cleared.
\<close>

theorem accepted_route_has_a_point:
  assumes "n < length (inflight (run evs init))"
  shows "(case firstCoordinates resp of
            Some (c # cs) \<Rightarrow>
              path (step (FetchSettles n resp) (run evs init)) =
                Some (map (\<lambda>p. (snd p, fst p)) (c # cs)) \<and>
              1 \<le> length (the (path (step (FetchSettles n resp) (run evs init)))) \<and>
              selectionState (step (FetchSettles n resp) (run evs init)) = PATH_CONFIRMED \<and>
              markers (step (FetchSettles n resp) (run evs init)) = markers (run evs init) \<and>
              alerts (step (FetchSettles n resp) (run evs init)) = alerts (run evs init)
          | _ \<Rightarrow>
              selectionState (step (FetchSettles n resp) (run evs init)) = SELECTING_START \<and>
              markers (step (FetchSettles n resp) (run evs init)) = [] \<and>
              alerts (step (FetchSettles n resp) (run evs init)) =
                alerts (run evs init) @ [RoutingFailed])"
proof (cases "firstCoordinates resp")
  case None
  with settle_refused[OF consistent_reachable assms, of resp] show ?thesis
    by simp
next
  case (Some xs)
  show ?thesis
  proof (cases xs)
    case Nil
    with Some settle_refused[OF consistent_reachable assms, of resp] show ?thesis
      by simp
  next
    case (Cons c cs)
    with Some settle_accepted[OF consistent_reachable assms, of resp c cs] show ?thesis
      by simp
  qed
qed

theorem accepted_route_has_a_point_witness:
  "0 < length (inflight fetching) \<and>
   path (step (FetchSettles 0
     (Body (Some [\<lparr> coordinates = Some [(51.39, 35.69), (51.40, 35.70)], time = 600000 \<rparr>])))
     fetching) = Some [(35.69, 51.39), (35.70, 51.40)] \<and>
   selectionState (step (FetchSettles 0
     (Body (Some [\<lparr> coordinates = Some [(51.39, 35.69), (51.40, 35.70)], time = 600000 \<rparr>])))
     fetching) = PATH_CONFIRMED \<and>
   selectionState (step (FetchSettles 0 (Body (Some []))) fetching) = SELECTING_START \<and>
   alerts (step (FetchSettles 0 (Body (Some []))) fetching) = alerts fetching @ [RoutingFailed]"
proof -
  have h: "0 < length (inflight fetching)"
    by (simp add: fetching_eq)
  note t = accepted_route_has_a_point[of 0 "[Mount, MapClick (35.70, 51.40), MapClick (35.71, 51.41)]",
      folded fetching_def, OF h]
  from t[of "Body (Some [\<lparr> coordinates = Some [(51.39, 35.69), (51.40, 35.70)], time = 600000 \<rparr>])"]
    t[of "Body (Some [])"] h
  show ?thesis
    by simp
qed

text \<open>
  C9 as stated fails: a response with a single coordinate is accepted and stored as a path
  of one point, and no failure is shown.
\<close>

theorem one_point_route_stored:
  "firstCoordinates onePoint = Some [(51.4, 35.7)] \<and>
   path (step (FetchSettles 0 onePoint) fetching) = Some [(35.7, 51.4)] \<and>
   length (the (path (step (FetchSettles 0 onePoint) fetching))) = 1 \<and>
   selectionState (step (FetchSettles 0 onePoint) fetching) = PATH_CONFIRMED \<and>
   alerts (step (FetchSettles 0 onePoint) fetching) = []"
proof -
  have b: "step (FetchSettles 0 onePoint) fetching =
     \<lparr> mapInstance = True,
       markers = [((35.70, 51.40), StartMarker), ((35.71, 51.41), EndMarker)],
       path = Some [(35.7, 51.4)],
       eta = Some (AboutMinutesWalking 2), isLoading = False,
       matchedUsersCount = 0, matchIntervalRef = None, selectionState = PATH_CONFIRMED,
       timers = [], nextTimer = 1, inflight = [], alerts = [] \<rparr>"
    by (simp add: fetching_eq onePoint_def step_def routeEffect_def matchEffect_def
        fetchRoute_settle_def durationMinutes_def)
  show ?thesis
    unfolding b by (simp add: onePoint_def)
qed

lemma confirm_eq:
  assumes "consistent w" "selectionState w = PATH_CONFIRMED" "\<not> isLoading w"
  shows "step ConfirmClick w =
     w\<lparr> selectionState := SEARCHING_FOR_MATCH, matchedUsersCount := 0,
        matchIntervalRef := Some (nextTimer w), timers := [nextTimer w],
        nextTimer := nextTimer w + 1 \<rparr>"
  using assms
  by (cases "matchIntervalRef w") (simp_all add: consistent_def defs handleConfirm_def)

lemma tick_below:
  assumes "selectionState w = SEARCHING_FOR_MATCH" "matchIntervalRef w = Some i" "timers w = [i]"
    "matchedUsersCount w + 1 < 3"
  shows "step (IntervalFires i) w = w\<lparr> matchedUsersCount := matchedUsersCount w + 1 \<rparr>"
  using assms by (simp add: defs intervalCallback_def)

lemma tick_reaches:
  assumes "selectionState w = SEARCHING_FOR_MATCH" "matchIntervalRef w = Some i" "timers w = [i]"
    "3 \<le> matchedUsersCount w + 1"
  shows "step (IntervalFires i) w =
     w\<lparr> timers := [], matchIntervalRef := None, selectionState := MATCH_FOUND,
        matchedUsersCount := matchedUsersCount w + 1 \<rparr>"
  using assms by (simp add: defs intervalCallback_def)

lemma no_timer_idle: "timers w = [] \<Longrightarrow> run (map IntervalFires js) w = w"
  by (induction js) (simp_all add: defs)

lemma cancel_searching:
  assumes "selectionState w = SEARCHING_FOR_MATCH" "matchIntervalRef w = Some i" "timers w = [i]"
    "mapInstance w"
  shows "selectionState (step CancelClick w) = SELECTING_START \<and> timers (step CancelClick w) = []
     \<and> matchIntervalRef (step CancelClick w) = None"
  using assms by (cases "path w") (simp_all add: defs handleReset_def)


lemma run_append: "run (xs @ ys) w = run ys (run xs w)"
  by (induction xs arbitrary: w) simp_all

lemma ticks_unfold:
  "ticks i 0 w = w"
  "ticks i 1 w = step (IntervalFires i) w"
  "ticks i 2 w = step (IntervalFires i) (step (IntervalFires i) w)"
  "ticks i 3 w = step (IntervalFires i) (step (IntervalFires i) (step (IntervalFires i) w))"
  by (simp_all add: ticks_def numeral_2_eq_2 numeral_3_eq_3)

lemma match_simulator_from:
  assumes c: "consistent w" and p: "selectionState w = PATH_CONFIRMED" and l: "\<not> isLoading w"
  defines "i \<equiv> nextTimer w"
  defines "w0 \<equiv> step ConfirmClick w"
  shows "selectionState w0 = SEARCHING_FOR_MATCH \<and> matchedUsersCount w0 = 0 \<and> timers w0 = [i] \<and>
     map (\<lambda>k. matchedUsersCount (ticks i k w0)) [1, 2, 3] = [1, 2, 3] \<and>
     map (\<lambda>k. selectionState (ticks i k w0)) [1, 2, 3] =
       [SEARCHING_FOR_MATCH, SEARCHING_FOR_MATCH, MATCH_FOUND] \<and>
     map (\<lambda>k. timers (ticks i k w0)) [1, 2, 3] = [[i], [i], []] \<and>
     (\<forall>js. run (map IntervalFires js) (ticks i 3 w0) = ticks i 3 w0) \<and>
     list_all (\<lambda>k. timers (step CancelClick (ticks i k w0)) = [] \<and>
        (\<forall>js. selectionState (run (map IntervalFires js) (step CancelClick (ticks i k w0)))
           = SELECTING_START)) [0, 1, 2]"
proof -
  define w1 where "w1 = step (IntervalFires i) w0"
  define w2 where "w2 = step (IntervalFires i) w1"
  define w3 where "w3 = step (IntervalFires i) w2"
  from c p have m: "mapInstance w"
    by (simp add: consistent_def)
  have e0: "w0 = w\<lparr> selectionState := SEARCHING_FOR_MATCH, matchedUsersCount := 0,
        matchIntervalRef := Some i, timers := [i], nextTimer := i + 1 \<rparr>"
    unfolding w0_def i_def by (rule confirm_eq[OF c p l])
  have f0: "selectionState w0 = SEARCHING_FOR_MATCH" "matchedUsersCount w0 = 0" "timers w0 = [i]"
    "matchIntervalRef w0 = Some i" "mapInstance w0"
    by (simp_all add: e0 m)
  have "w1 = w0\<lparr> matchedUsersCount := matchedUsersCount w0 + 1 \<rparr>"
    unfolding w1_def by (rule tick_below) (simp_all add: f0)
  then have e1: "w1 = w0\<lparr> matchedUsersCount := 1 \<rparr>"
    by (simp add: f0)
  have f1: "selectionState w1 = SEARCHING_FOR_MATCH" "matchedUsersCount w1 = 1"
    "timers w1 = [i]" "matchIntervalRef w1 = Some i" "mapInstance w1"
    by (simp_all add: e1 f0)
  have "w2 = w1\<lparr> matchedUsersCount := matchedUsersCount w1 + 1 \<rparr>"
    unfolding w2_def by (rule tick_below) (simp_all add: f1)
  then have e2: "w2 = w0\<lparr> matchedUsersCount := 2 \<rparr>"
    by (simp add: e1)
  have f2: "selectionState w2 = SEARCHING_FOR_MATCH" "matchedUsersCount w2 = 2"
    "timers w2 = [i]" "matchIntervalRef w2 = Some i" "mapInstance w2"
    by (simp_all add: e2 f0)
  have "w3 = w2\<lparr> timers := [], matchIntervalRef := None, selectionState := MATCH_FOUND,
      matchedUsersCount := matchedUsersCount w2 + 1 \<rparr>"
    unfolding w3_def by (rule tick_reaches) (simp_all add: f2)
  then have e3: "w3 = w0\<lparr> timers := [], matchIntervalRef := None,
      selectionState := MATCH_FOUND, matchedUsersCount := 3 \<rparr>"
    by (simp add: e2)
  have f3: "matchedUsersCount w3 = 3" "selectionState w3 = MATCH_FOUND" "timers w3 = []"
    by (simp_all add: e3)
  have idle: "\<forall>js. run (map IntervalFires js) w3 = w3"
    by (simp add: no_timer_idle f3)
  have stop: "timers (step CancelClick v) = [] \<and>
      (\<forall>js. selectionState (run (map IntervalFires js) (step CancelClick v)) = SELECTING_START)"
    if "selectionState v = SEARCHING_FOR_MATCH" "matchIntervalRef v = Some i" "timers v = [i]"
      "mapInstance v" for v
    using cancel_searching[OF that] by (simp add: no_timer_idle)
  note s0 = stop[OF f0(1,4,3,5)] and s1 = stop[OF f1(1,4,3,5)] and s2 = stop[OF f2(1,4,3,5)]
  have t: "ticks i 0 w0 = w0" "ticks i 1 w0 = w1" "ticks i 2 w0 = w2" "ticks i 3 w0 = w3"
    by (simp_all only: ticks_unfold w1_def w2_def w3_def)
  show ?thesis
    unfolding list.map list.pred_inject t
    using f0 f1 f2 f3 idle s0 s1 s2 by simp
qed


lemma routed_eq:
  "routed = \<lparr> mapInstance = True,
       markers = [((35.70, 51.40), StartMarker), ((35.71, 51.41), EndMarker)],
       path = Some [(35.7, 51.4)],
       eta = Some (AboutMinutesWalking 2), isLoading = False,
       matchedUsersCount = 0, matchIntervalRef = None, selectionState = PATH_CONFIRMED,
       timers = [], nextTimer = 1, inflight = [], alerts = [] \<rparr>"
proof -
  have "routed = step (FetchSettles 0 onePoint) fetching"
    by (simp add: routed_def fetching_def run_append[of _ "[FetchSettles 0 onePoint]", symmetric])
  then show ?thesis
    by (simp add: fetching_eq onePoint_def step_def routeEffect_def matchEffect_def
        fetchRoute_settle_def durationMinutes_def)
qed

text \<open>
  C8: once the path is confirmed and the confirm button is pressed, the machine is in
  \<open>SEARCHING_FOR_MATCH\<close> with the counter at 0 and one interval, of handle \<open>i\<close>.  As
  that interval fires, the counter takes the values 1, 2, 3; the phase becomes
  \<open>MATCH_FOUND\<close> at the third firing and not before; the interval is cleared at the
  third firing, after which no interval firing changes anything.  And if the search is
  cancelled (which calls \<open>handleReset\<close>) after 0, 1 or 2 firings, no interval is left and
  the phase stays \<open>SELECTING_START\<close> however many firings are delivered: \<open>MATCH_FOUND\<close>
  is never reached.
\<close>

theorem match_simulator:
  assumes "selectionState (run evs init) = PATH_CONFIRMED" and "\<not> isLoading (run evs init)"
  defines "i \<equiv> nextTimer (run evs init)"
  defines "w0 \<equiv> step ConfirmClick (run evs init)"
  shows "selectionState w0 = SEARCHING_FOR_MATCH \<and> matchedUsersCount w0 = 0 \<and> timers w0 = [i] \<and>
     map (\<lambda>k. matchedUsersCount (ticks i k w0)) [1, 2, 3] = [1, 2, 3] \<and>
     map (\<lambda>k. selectionState (ticks i k w0)) [1, 2, 3] =
       [SEARCHING_FOR_MATCH, SEARCHING_FOR_MATCH, MATCH_FOUND] \<and>
     map (\<lambda>k. timers (ticks i k w0)) [1, 2, 3] = [[i], [i], []] \<and>
     (\<forall>js. run (map IntervalFires js) (ticks i 3 w0) = ticks i 3 w0) \<and>
     list_all (\<lambda>k. timers (step CancelClick (ticks i k w0)) = [] \<and>
        (\<forall>js. selectionState (run (map IntervalFires js) (step CancelClick (ticks i k w0)))
           = SELECTING_START)) [0, 1, 2]"
  unfolding i_def w0_def
  using consistent_reachable assms(1,2) by (rule match_simulator_from)

theorem match_simulator_witness:
  "selectionState routed = PATH_CONFIRMED \<and> \<not> isLoading routed \<and>
   timers (step ConfirmClick routed) = [1] \<and>
   map (\<lambda>k. matchedUsersCount (ticks 1 k (step ConfirmClick routed))) [1, 2, 3] = [1, 2, 3] \<and>
   map (\<lambda>k. selectionState (ticks 1 k (step ConfirmClick routed))) [1, 2, 3] =
     [SEARCHING_FOR_MATCH, SEARCHING_FOR_MATCH, MATCH_FOUND] \<and>
   (\<forall>js. run (map IntervalFires js) (ticks 1 3 (step ConfirmClick routed)) =
      ticks 1 3 (step ConfirmClick routed)) \<and>
   (\<forall>js. selectionState (run (map IntervalFires js)
      (step CancelClick (ticks 1 2 (step ConfirmClick routed)))) = SELECTING_START)"
proof -
  have h: "selectionState routed = PATH_CONFIRMED" "\<not> isLoading routed"
    by (simp_all add: routed_eq)
  have n: "nextTimer routed = 1"
    by (simp add: routed_eq)
  note t = match_simulator[of "[Mount, MapClick (35.70, 51.40), MapClick (35.71, 51.41),
      FetchSettles 0 onePoint]", folded routed_def, OF h, unfolded n list.pred_inject]
  from t h show ?thesis by blast
qed

section \<open>The same properties of the component of \<open>part_000\<close>\<close>

lemmas defs0 = step0_def routeEffect0_def fetchRoute0_start_def render_of0_def handleReset0_def
  fetchRoute0_catch_def

lemma consistent0_init: "consistent0 (init0 key)"
  by (simp add: consistent0_def init0_def)

lemma consistent0_step: "consistent0 w \<Longrightarrow> consistent0 (step0 ev w)"
proof (cases ev)
  case Mount0
  assume "consistent0 w"
  with Mount0 show ?thesis
    by (cases "selectionState0 w"; cases "mapInstance0 w"; cases "isLoading0 w")
       (simp_all add: consistent0_def defs0 mapEffect0_def)
next
  case (MapClick0 e)
  assume "consistent0 w"
  with MapClick0 show ?thesis
    by (cases "selectionState0 w"; cases "mapInstance0 w"; cases "isLoading0 w"; cases "apiKey0 w";
        cases "path0 w")
       (simp_all add: consistent0_def defs0 clickRegistered0_def handleMapClick0_def)
next
  case ConfirmClick0
  assume "consistent0 w"
  with ConfirmClick0 show ?thesis
    by (cases "selectionState0 w"; cases "mapInstance0 w"; cases "isLoading0 w")
       (simp_all add: consistent0_def defs0 handleConfirm0_def)
next
  case ResetClick0
  assume "consistent0 w"
  with ResetClick0 show ?thesis
    by (cases "selectionState0 w"; cases "mapInstance0 w"; cases "isLoading0 w"; cases "path0 w")
       (simp_all add: consistent0_def defs0)
next
  case (FetchSettles0 n resp)
  assume c: "consistent0 w"
  show ?thesis
  proof (cases "n < length (inflight0 w)")
    case False
    with c FetchSettles0 show ?thesis
      by (cases "selectionState0 w"; cases "mapInstance0 w"; cases "isLoading0 w")
         (simp_all add: consistent0_def defs0)
  next
    case True
    with c have l: "isLoading0 w" and n: "n = 0"
      by (auto simp: consistent0_def split: if_splits)
    with c have p: "selectionState0 w = PATH_CONFIRMED0" "mapInstance0 w"
      by (cases "selectionState0 w"; simp add: consistent0_def)+
    show ?thesis
    proof (cases resp)
      case (Body0 status routes)
      show ?thesis
      proof (cases routes)
        case Nil
        with c l n p FetchSettles0 Body0 show ?thesis
          by (cases "path0 w"; cases "status = ''OK''")
             (simp_all add: consistent0_def defs0 fetchRoute0_settle_def)
      next
        case (Cons rt rest)
        with c l n p FetchSettles0 Body0 show ?thesis
          by (cases "points rt"; cases "duration_text rt"; cases "path0 w"; cases "status = ''OK''";
              cases "decodePolyline (the (points rt)) = []")
             (simp_all add: consistent0_def defs0 fetchRoute0_settle_def)
      qed
    qed (use c l n p FetchSettles0 in \<open>cases "path0 w";
          simp add: consistent0_def defs0 fetchRoute0_settle_def\<close>)+
  qed
qed

lemma consistent0_run: "consistent0 w \<Longrightarrow> consistent0 (run0 evs w)"
  by (induction evs arbitrary: w) (simp_all add: consistent0_step)

lemma consistent0_reachable: "consistent0 (run0 evs (init0 key))"
  by (rule consistent0_run[OF consistent0_init])

text \<open>
  The properties of the state machine hold of this component as well.  It never holds
  more than two markers.
\<close>

lemma markers0_never_more_than_two: "length (markers0 (run0 evs (init0 key))) \<le> 2"
  using consistent0_reachable[of evs key]
  by (cases "selectionState0 (run0 evs (init0 key))") (simp_all add: consistent0_def)

text \<open>In every world it can reach, \<open>handleReset\<close> leaves the reset state.\<close>

lemma handleReset0_reachable:
  "isResetState0 (handleReset0 (render_of0 (run0 evs (init0 key))) (run0 evs (init0 key)))"
proof -
  define w where "w = run0 evs (init0 key)"
  have "consistent0 w" unfolding w_def by (rule consistent0_reachable)
  then have "isResetState0 (handleReset0 (render_of0 w) w)"
    by (cases "selectionState0 w"; cases "mapInstance0 w"; cases "path0 w")
       (simp_all add: consistent0_def isResetState0_def handleReset0_def render_of0_def
          split: if_splits)
  then show ?thesis by (simp only: w_def)
qed

text \<open>
  A fetch that fails before \<open>setPath\<close> (a rejection, a status other than \<open>OK\<close>, no route
  in the body, no polyline in the first route) ends in the reset state, with one more
  alert shown.
\<close>

lemma fetch0_failure_full_reset:
  assumes "n < length (inflight0 (run0 evs (init0 key)))" "firstPolyline0 resp = None"
  shows "isResetState0 (step0 (FetchSettles0 n resp) (run0 evs (init0 key))) \<and>
         (\<exists>a. alerts0 (step0 (FetchSettles0 n resp) (run0 evs (init0 key))) =
            alerts0 (run0 evs (init0 key)) @ [a]) \<and>
         inflight0 (step0 (FetchSettles0 n resp) (run0 evs (init0 key))) = []"
proof -
  define w where "w = run0 evs (init0 key)"
  have c: "consistent0 w" unfolding w_def by (rule consistent0_reachable)
  from assms(1) have "n < length (inflight0 w)" by (simp add: w_def)
  with c have l: "isLoading0 w" and n: "n = 0"
    by (auto simp: consistent0_def split: if_splits)
  with c have p: "selectionState0 w = PATH_CONFIRMED0" "mapInstance0 w" "inflight0 w = [render_of0 w]"
    by (cases "selectionState0 w"; simp add: consistent0_def)+
  from assms(2) consider "resp = FetchRejected0" | "resp = JsonRejected0"
    | s where "resp = Body0 s []" | s rt rest where "resp = Body0 s (rt # rest)" "s \<noteq> ''OK''"
    | rt rest where "resp = Body0 ''OK'' (rt # rest)" "points rt = None"
    by (cases resp rule: firstPolyline0.cases) (auto split: if_splits)
  then have "isResetState0 (step0 (FetchSettles0 n resp) w) \<and>
         (\<exists>a. alerts0 (step0 (FetchSettles0 n resp) w) = alerts0 w @ [a]) \<and>
         inflight0 (step0 (FetchSettles0 n resp) w) = []"
    using l n p
    by cases
      (cases "path0 w"; simp add: defs0 isResetState0_def fetchRoute0_settle_def)+
  then show ?thesis unfolding w_def .
qed

text \<open>
  While a fetch is in flight nothing but its settling changes the state: both buttons
  are disabled and the click handler is not registered.
\<close>

lemma fetch0_not_interrupted:
  assumes "inflight0 (run0 evs (init0 key)) \<noteq> []" "\<forall>n resp. ev \<noteq> FetchSettles0 n resp"
  shows "step0 ev (run0 evs (init0 key)) = run0 evs (init0 key)"
proof -
  define w where "w = run0 evs (init0 key)"
  have c: "consistent0 w" unfolding w_def by (rule consistent0_reachable)
  from assms(1) c have l: "isLoading0 w"
    by (auto simp: w_def consistent0_def split: if_splits)
  with c have p: "selectionState0 w = PATH_CONFIRMED0" "mapInstance0 w"
    by (cases "selectionState0 w"; simp add: consistent0_def)+
  have "step0 ev w = w"
  proof (cases ev)
    case (FetchSettles0 n resp)
    with assms(2) show ?thesis by blast
  qed (use l p in \<open>simp_all add: defs0 mapEffect0_def clickRegistered0_def\<close>)
  then show ?thesis unfolding w_def .
qed

text \<open>
  A body with status \<open>OK\<close> whose first route has a duration text and a polyline of which
  \<open>decodePolyline\<close> makes at least one point is accepted; the points are not counted
  further.
\<close>

lemma route0_accepted:
  assumes "n < length (inflight0 (run0 evs (init0 key)))"
    and "points rt = Some enc" "decodePolyline enc \<noteq> []" "duration_text rt = Some d"
  shows "path0 (step0 (FetchSettles0 n (Body0 ''OK'' (rt # rest))) (run0 evs (init0 key))) =
           Some (decodePolyline enc) \<and>
         selectionState0 (step0 (FetchSettles0 n (Body0 ''OK'' (rt # rest)))
           (run0 evs (init0 key))) = PATH_CONFIRMED0 \<and>
         alerts0 (step0 (FetchSettles0 n (Body0 ''OK'' (rt # rest))) (run0 evs (init0 key))) =
           alerts0 (run0 evs (init0 key))"
proof -
  define w where "w = run0 evs (init0 key)"
  have c: "consistent0 w" unfolding w_def by (rule consistent0_reachable)
  from assms(1) have "n < length (inflight0 w)" by (simp add: w_def)
  with c have l: "isLoading0 w" and n: "n = 0"
    by (auto simp: consistent0_def split: if_splits)
  with c have p: "selectionState0 w = PATH_CONFIRMED0" "mapInstance0 w" "inflight0 w = [render_of0 w]"
    by (cases "selectionState0 w"; simp add: consistent0_def)+
  from l n p assms(2-4) have "path0 (step0 (FetchSettles0 n (Body0 ''OK'' (rt # rest))) w) =
           Some (decodePolyline enc) \<and>
         selectionState0 (step0 (FetchSettles0 n (Body0 ''OK'' (rt # rest))) w) =
           PATH_CONFIRMED0 \<and>
         alerts0 (step0 (FetchSettles0 n (Body0 ''OK'' (rt # rest))) w) = alerts0 w"
    by (simp add: step0_def routeEffect0_def fetchRoute0_settle_def)
  then show ?thesis unfolding w_def .
qed

lemma fetching0_eq:
  "fetching0 = \<lparr> apiKey0 = True, mapInstance0 = True,
      markers0 = [((35.70, 51.40), StartMarker), ((35.71, 51.41), EndMarker)],
      path0 = None, eta0 = None, isLoading0 = True, selectionState0 = PATH_CONFIRMED0,
      inflight0 = [\<lparr> r_mapInstance = True,
         r_markers = [((35.70, 51.40), StartMarker), ((35.71, 51.41), EndMarker)],
         r_path = None \<rparr>],
      alerts0 = [] \<rparr>"
  by (simp add: fetching0_def init0_def step0_def routeEffect0_def fetchRoute0_start_def
      render_of0_def mapEffect0_def clickRegistered0_def handleMapClick0_def createMarker_def)

text \<open>
  For one, a polyline of a single point (\<open>??\<close> decodes to \<open>(0, 0)\<close>) is stored as the
  path.
\<close>

lemma decodePolyline_one_point: "decodePolyline (str ''??'') = [(0, 0)]"
  by code_simp

lemma one_point_route0_stored:
  "path0 (step0 (FetchSettles0 0
      (Body0 ''OK'' [\<lparr> points = Some (str ''??''), duration_text = Some ''1 min'' \<rparr>]))
      fetching0) = Some [(0, 0)] \<and>
   selectionState0 (step0 (FetchSettles0 0
      (Body0 ''OK'' [\<lparr> points = Some (str ''??''), duration_text = Some ''1 min'' \<rparr>]))
      fetching0) = PATH_CONFIRMED0"
  by (simp add: fetching0_eq step0_def routeEffect0_def fetchRoute0_settle_def
      decodePolyline_one_point)

text \<open>
  And an empty polyline fails after \<open>setPath\<close>, as an empty list of coordinates does in
  the other component: the alert is shown and the phase and the markers are reset, but
  the path stays stored.
\<close>

lemma empty_route0_failure_keeps_path:
  "selectionState0 (step0 (FetchSettles0 0
      (Body0 ''OK'' [\<lparr> points = Some [], duration_text = Some ''1 min'' \<rparr>])) fetching0)
     = SELECTING_START0 \<and>
   markers0 (step0 (FetchSettles0 0
      (Body0 ''OK'' [\<lparr> points = Some [], duration_text = Some ''1 min'' \<rparr>])) fetching0) = [] \<and>
   alerts0 (step0 (FetchSettles0 0
      (Body0 ''OK'' [\<lparr> points = Some [], duration_text = Some ''1 min'' \<rparr>])) fetching0)
     = [ConnectionFailed0] \<and>
   path0 (step0 (FetchSettles0 0
      (Body0 ''OK'' [\<lparr> points = Some [], duration_text = Some ''1 min'' \<rparr>])) fetching0)
     = Some []"
proof -
  have e: "decodePolyline [] = []"
    by (simp add: decodePolyline_def decodeLoop_done)
  show ?thesis
    by (simp add: fetching0_eq step0_def routeEffect0_def fetchRoute0_settle_def
        fetchRoute0_catch_def handleReset0_def e)
qed

text \<open>
  Without an API key the second click alerts and resets at once, and no request is made.
\<close>

lemma no_api_key_resets:
  "isResetState0 (run0 [Mount0, MapClick0 (35.70, 51.40), MapClick0 (35.71, 51.41)] (init0 False)) \<and>
   alerts0 (run0 [Mount0, MapClick0 (35.70, 51.40), MapClick0 (35.71, 51.41)] (init0 False)) =
     [ApiKeyMissing0] \<and>
   inflight0 (run0 [Mount0, MapClick0 (35.70, 51.40), MapClick0 (35.71, 51.41)] (init0 False)) = []"
  by (simp add: init0_def step0_def routeEffect0_def fetchRoute0_start_def handleReset0_def
      render_of0_def mapEffect0_def clickRegistered0_def handleMapClick0_def createMarker_def
      isResetState0_def)

end
